theory Spec2Isabelle
  imports Complex_Main "HOL-Library.Sublist"
begin

section \<open>Data model\<close>

text \<open>
  A raw candle is the six-element array \<^verbatim>\<open>[timestamp, open, high, low, close, volume]\<close>
  returned by the exchange client. Timestamps are epoch milliseconds and are modelled as
  integers (JavaScript numbers are exact on integers below \<open>2^53\<close>); the price and volume
  numbers are kept abstract in the type parameter \<open>'n\<close>.
\<close>

type_synonym 'n RawOHLCVData = "int \<times> 'n \<times> 'n \<times> 'n \<times> 'n \<times> 'n"

record fetch_request =
  market :: string
  timeframe :: string
  since :: int
  limit :: int

text \<open>
  The eight columns of a candle. The loader carries the five price and volume columns as
  text (\<open>OHLCVDataItem\<close>); the store keeps them as \<^verbatim>\<open>DECIMAL(20,8)\<close> values (a row of a
  table, see below).
\<close>

record 'v OHLCVRow =
  symbol :: string
  open_time :: int
  "open" :: 'v
  high :: 'v
  low :: 'v
  close :: 'v
  volume :: 'v
  close_time :: int

type_synonym OHLCVDataItem = "string OHLCVRow"

definition LIMIT :: int where
  "LIMIT = 1000000"

section \<open>Parsing (parsing/ohlcv.ts)\<close>

definition filterCompleteCandles :: "int \<Rightarrow> OHLCVDataItem list \<Rightarrow> OHLCVDataItem list" where
  \<comment> \<open>\<open>now\<close> is the value of \<^verbatim>\<open>Date.now()\<close> read by the function.\<close>
  "filterCompleteCandles now data = filter (\<lambda>item. close_time item \<le> now) data"

definition parseCandle :: "('n \<Rightarrow> string) \<Rightarrow> string \<Rightarrow> 'n RawOHLCVData \<Rightarrow> OHLCVDataItem" where
  \<comment> \<open>The body of the \<^verbatim>\<open>map\<close> callback; \<open>toString\<close> is \<^verbatim>\<open>Number.prototype.toString\<close>.\<close>
  "parseCandle toString smb candle =
     (case candle of (timestamp, opn, hi, lo, cl, vol) \<Rightarrow>
        \<lparr>symbol = smb, open_time = timestamp, open = toString opn, high = toString hi,
         low = toString lo, close = toString cl, volume = toString vol,
         close_time = timestamp + 60000\<rparr>)"

definition parseOHLCVData ::
  "('n \<Rightarrow> string) \<Rightarrow> int \<Rightarrow> 'n RawOHLCVData list \<Rightarrow> string \<Rightarrow> bool \<Rightarrow> OHLCVDataItem list" where
  "parseOHLCVData toString now ohlcvData smb excludeIncomplete =
     (let parsedData = map (parseCandle toString smb) ohlcvData
      in if excludeIncomplete then filterCompleteCandles now parsedData else parsedData)"

fun deduplicate_loop :: "(string \<times> int) set \<Rightarrow> OHLCVDataItem list \<Rightarrow> OHLCVDataItem list" where
  "deduplicate_loop seen [] = []"
| "deduplicate_loop seen (item # rest) =
     (let key = (symbol item, close_time item)
      in if key \<in> seen then deduplicate_loop seen rest
         else item # deduplicate_loop (insert key seen) rest)"

definition deduplicateOHLCVData :: "OHLCVDataItem list \<Rightarrow> OHLCVDataItem list" where
  \<comment> \<open>The key string \<^verbatim>\<open>`${symbol}-${close_time}`\<close> is modelled by the pair.\<close>
  "deduplicateOHLCVData data = deduplicate_loop {} data"

section \<open>Range planning (loading/fetch-ohlcv.ts, lines 72--101)\<close>

definition js_ceil_div :: "int \<Rightarrow> int \<Rightarrow> int" where
  \<comment> \<open>\<^verbatim>\<open>Math.ceil(a / b)\<close> on integers with \<open>b \<noteq> 0\<close>.\<close>
  "js_ceil_div a b = - ((- a) div b)"

definition js_floor_div :: "int \<Rightarrow> int \<Rightarrow> int" where
  \<comment> \<open>\<^verbatim>\<open>Math.floor(a / b)\<close> on integers with \<open>b \<noteq> 0\<close>.\<close>
  "js_floor_div a b = a div b"

record fetch_plan =
  totalLimit :: int
  numRequests :: int
  requests :: "fetch_request list"

definition prepare_requests :: "string \<Rightarrow> string \<Rightarrow> int \<Rightarrow> int \<Rightarrow> int \<Rightarrow> int \<Rightarrow> fetch_request list" where
  \<comment> \<open>The loop \<^verbatim>\<open>for (let i = 0; i < numRequests; i++) requests.push(...)\<close>.\<close>
  "prepare_requests mkt tf since0 numReq maxLimit timeframeInterval =
     map (\<lambda>i. \<lparr>market = mkt, timeframe = tf,
               since = since0 + (int i * maxLimit * timeframeInterval), limit = LIMIT\<rparr>)
         [0..<nat numReq]"

definition plan_requests ::
  "string \<Rightarrow> string \<Rightarrow> int \<Rightarrow> int \<Rightarrow> int \<Rightarrow> int \<Rightarrow> int \<Rightarrow> fetch_plan option" where
  \<comment> \<open>\<open>endTimestamp\<close> is \<^verbatim>\<open>dateToTimestamp(toDate)\<close>, or \<^verbatim>\<open>Date.now()\<close> when \<^verbatim>\<open>toDate\<close> is null;
      \<open>first\<close> is \<^verbatim>\<open>initialData[0][0]\<close>. With \<open>timeframeInterval = 0\<close> the quotient is not
      a finite number: \<^verbatim>\<open>+Infinity\<close> makes the request loop run forever (\<open>None\<close>), while
      \<^verbatim>\<open>-Infinity\<close> and \<^verbatim>\<open>NaN\<close> make it run zero times and make \<^verbatim>\<open>slice(0, totalLimit)\<close>
      empty, which the plan with \<open>totalLimit = 0\<close> reproduces.\<close>
  "plan_requests mkt tf since0 endTimestamp first maxLimit timeframeInterval =
     (if timeframeInterval = 0 then
        (if endTimestamp - first > 0 then None
         else Some \<lparr>totalLimit = 0, numRequests = 0, requests = []\<rparr>)
      else
        (let totalLim = js_ceil_div (endTimestamp - first) timeframeInterval;
             numReq = js_ceil_div totalLim maxLimit
         in Some \<lparr>totalLimit = totalLim, numRequests = numReq,
                  requests = prepare_requests mkt tf since0 numReq maxLimit timeframeInterval\<rparr>))"

section \<open>Merge, deduplication and gap check (loading/fetch-ohlcv.ts, lines 144--181)\<close>

fun uniqueData_loop :: "int set \<Rightarrow> 'n RawOHLCVData list \<Rightarrow> 'n RawOHLCVData list" where
  "uniqueData_loop seenTimestamps [] = []"
| "uniqueData_loop seenTimestamps (candle # rest) =
     (let timestamp = fst candle
      in if timestamp \<notin> seenTimestamps
         then candle # uniqueData_loop (insert timestamp seenTimestamps) rest
         else uniqueData_loop seenTimestamps rest)"

definition js_slice0 :: "'a list \<Rightarrow> int \<Rightarrow> 'a list" where
  \<comment> \<open>\<^verbatim>\<open>xs.slice(0, e)\<close>: a negative end counts from the end of the array.\<close>
  "js_slice0 xs e = (if e < 0 then take (nat (int (length xs) + e)) xs else take (nat e) xs)"

definition finalData :: "'n RawOHLCVData list \<Rightarrow> int \<Rightarrow> 'n RawOHLCVData list" where
  \<comment> \<open>Deduplicate, sort by timestamp (the comparator \<^verbatim>\<open>a[0] - b[0]\<close>, a stable sort), trim.\<close>
  "finalData allData totalLim = js_slice0 (sort_key fst (uniqueData_loop {} allData)) totalLim"

fun missingCandles_loop :: "int \<Rightarrow> int \<Rightarrow> 'n RawOHLCVData list \<Rightarrow> int" where
  \<comment> \<open>The integrity loop, walking adjacent pairs with the running counter.\<close>
  "missingCandles_loop expectedInterval missing (a # b # rest) =
     (let actualInterval = fst b - fst a
      in missingCandles_loop expectedInterval
           (if actualInterval \<noteq> expectedInterval
            then missing + (js_floor_div actualInterval expectedInterval - 1)
            else missing)
           (b # rest))"
| "missingCandles_loop expectedInterval missing _ = missing"

definition missingCandles :: "int \<Rightarrow> 'n RawOHLCVData list \<Rightarrow> int" where
  "missingCandles timeframeInterval final = missingCandles_loop timeframeInterval 0 final"

section \<open>The world the loader runs in\<close>

text \<open>
  Errors are values. The three named errors are the \<^verbatim>\<open>new Error(...)\<close> objects the fetcher
  builds itself ("No data available ...", "Not enough data available ...", "Failed to fetch
  data after 3 retries due to rate limiting"); \<open>Thrown e\<close> is an error object raised by a
  collaborator (exchange client, connection pool) and passed on unchanged, \<open>e\<close> being the
  text of its \<^verbatim>\<open>toString()\<close>.
\<close>

datatype error = NoDataAvailable | InsufficientData | RateLimitExhausted | Thrown string

datatype 'n response = Candles "'n RawOHLCVData list" | Fails string

datatype query =
    CreateTable string
  | InsertRows string "OHLCVDataItem list"
  | SelectLatest string "string list"

datatype qresult = Done | Rows "(string \<times> int) list"

datatype event =
    Fetch fetch_request
  | Sleep nat
  | Query query
  | Warn_missing int
  | Warn_no_type string
  | Error_logged error
  | Batch_persisted nat
  | Batch_failed nat error
  | Closed

record Market =
  mk_symbol :: "string option"
  mk_type :: "string option"
  mk_settle :: "string option"
  mk_quote :: "string option"
  mk_active :: "bool option"
  mk_future :: "bool option"
  mk_swap :: "bool option"
  mk_contract :: "bool option"

text \<open>
  A value of a \<^verbatim>\<open>DECIMAL(20,8)\<close> column: \<open>Dec u\<close> is the number \<open>u / 10^8\<close> with
  \<open>|u| < 10^20\<close>, or the special value \<^verbatim>\<open>NaN\<close>. A table is the list of its rows (the
  column \<^verbatim>\<open>created_at\<close>, which no statement of the loader writes or reads, is left out).
  The primary key is \<open>(symbol, open_time)\<close>.
\<close>

datatype decimal = Dec int | DecNaN

type_synonym table = "decimal OHLCVRow list"

record 'n world =
  exchange :: "nat \<Rightarrow> fetch_request \<Rightarrow> 'n response"
    \<comment> \<open>the answer of the exchange to its \<open>k\<close>-th \<^verbatim>\<open>fetchOHLCV\<close> call\<close>
  calls :: nat
  load_markets :: "string \<Rightarrow> string + (string \<times> Market) list"
    \<comment> \<open>\<^verbatim>\<open>exchange.loadMarkets()\<close> of the named exchange: an error or the market dictionary\<close>
  clock :: "nat \<Rightarrow> int"
    \<comment> \<open>the value of the \<open>k\<close>-th \<^verbatim>\<open>Date.now()\<close>\<close>
  reads :: nat
  tables :: "string \<rightharpoonup> table"
  db_fault :: "nat \<Rightarrow> string option"
    \<comment> \<open>whether the \<open>k\<close>-th \<^verbatim>\<open>pool.query\<close> fails on its own (connection, timeout)\<close>
  queries :: nat
  trace :: "event list"
  PERSISTENCE_BATCH_SIZE :: int
  HISTORICAL_DATA_TO_KEEP_MS :: int
  MARKET_TYPES :: "string list"
  retry_default_attempts :: nat
  retry_default_delay :: nat
    \<comment> \<open>the default arguments of the helper \<^verbatim>\<open>retry\<close>, whose source is not available\<close>

definition emit :: "event \<Rightarrow> 'n world \<Rightarrow> 'n world" where
  "emit ev w = w\<lparr>trace := trace w @ [ev]\<rparr>"

definition sleep :: "nat \<Rightarrow> 'n world \<Rightarrow> 'n world" where
  "sleep ms w = emit (Sleep ms) w"

definition Date_now :: "'n world \<Rightarrow> int \<times> 'n world" where
  "Date_now w = (clock w (reads w), w\<lparr>reads := Suc (reads w)\<rparr>)"

definition fetchOHLCV :: "'n world \<Rightarrow> fetch_request \<Rightarrow> 'n response \<times> 'n world" where
  "fetchOHLCV w req =
     (exchange w (calls w) req, emit (Fetch req) (w\<lparr>calls := Suc (calls w)\<rparr>))"

section \<open>Paged fetching (loading/fetch-ohlcv.ts, lines 56--142)\<close>

fun str_includes :: "string \<Rightarrow> string \<Rightarrow> bool" where
  \<comment> \<open>\<^verbatim>\<open>String.prototype.includes\<close>\<close>
  "str_includes [] pat = (pat = [])"
| "str_includes (c # cs) pat = (prefix pat (c # cs) \<or> str_includes cs pat)"

definition is_rate_limit :: "string \<Rightarrow> bool" where
  "is_rate_limit e = (str_includes e ''rate limit'' \<or> str_includes e ''429'')"

definition maxRetries_fetch :: nat where
  "maxRetries_fetch = 3"

function fetch_chunk ::
  "'n world \<Rightarrow> fetch_request \<Rightarrow> nat \<Rightarrow> (error + 'n RawOHLCVData list) \<times> 'n world" where
  \<comment> \<open>The \<^verbatim>\<open>while (retryCount < maxRetries)\<close> loop of one request, with the check after it.\<close>
  "fetch_chunk w request retryCount =
     (if retryCount < maxRetries_fetch then
        (case fetchOHLCV w request of
           (Candles chunkData, w') \<Rightarrow> (Inr chunkData, w')
         | (Fails e, w') \<Rightarrow>
             if is_rate_limit e then fetch_chunk (sleep 60000 w') request (Suc retryCount)
             else (Inl (Thrown e), w'))
      else (Inl RateLimitExhausted, w))"
  by pat_completeness auto
termination
  by (relation "measure (\<lambda>(w, request, retryCount). maxRetries_fetch - retryCount)") auto

fun fetch_requests_loop ::
  "'n world \<Rightarrow> fetch_request list \<Rightarrow> 'n RawOHLCVData list
     \<Rightarrow> (error + 'n RawOHLCVData list) \<times> 'n world" where
  "fetch_requests_loop w [] allData = (Inr allData, w)"
| "fetch_requests_loop w (request # rest) allData =
     (case fetch_chunk w request 0 of
        (Inl e, w') \<Rightarrow> (Inl e, w')
      | (Inr chunkData, w') \<Rightarrow> fetch_requests_loop (sleep 100 w') rest (allData @ chunkData))"

definition aggregate :: "'n world \<Rightarrow> 'n RawOHLCVData list \<Rightarrow> int \<Rightarrow> int
     \<Rightarrow> (error + 'n RawOHLCVData list) \<times> 'n world" where
  \<comment> \<open>Lines 144--181: merge, integrity check, warning, return.\<close>
  "aggregate w allData totalLim timeframeInterval =
     (let final = finalData allData totalLim;
          missing = missingCandles timeframeInterval final
      in (Inr final, if missing > 0 then emit (Warn_missing missing) w else w))"

definition rethrow_logged :: "(error + 'a) \<times> 'n world \<Rightarrow> (error + 'a) \<times> 'n world" where
  \<comment> \<open>\<^verbatim>\<open>catch (error) { console.error(..., error); throw error; }\<close>\<close>
  "rethrow_logged r =
     (case r of (Inl e, w) \<Rightarrow> (Inl e, emit (Error_logged e) w) | (Inr v, w) \<Rightarrow> (Inr v, w))"

definition fetchOHLCVData ::
  "'n world \<Rightarrow> string \<Rightarrow> string \<Rightarrow> int \<Rightarrow> int option
     \<Rightarrow> ((error + 'n RawOHLCVData list) \<times> 'n world) option" where
  \<comment> \<open>\<open>since0\<close> is \<^verbatim>\<open>dateToTimestamp(fromDate)\<close> and \<open>toDate\<close> the end timestamp, if given.
      \<open>None\<close>: the request loop does not terminate.\<close>
  "fetchOHLCVData w mkt tf since0 toDate =
     (case fetchOHLCV w \<lparr>market = mkt, timeframe = tf, since = since0, limit = LIMIT\<rparr> of
        (Fails e, w1) \<Rightarrow> Some (rethrow_logged (Inl (Thrown e), w1))
      | (Candles initialData, w1) \<Rightarrow>
          (case initialData of
             [] \<Rightarrow> Some (rethrow_logged (Inl NoDataAvailable, w1))
           | [c0] \<Rightarrow> Some (rethrow_logged (Inl InsufficientData, w1))
           | c0 # c1 # _ \<Rightarrow>
               (let maxLimit = int (length initialData);
                    timeframeInterval = fst c1 - fst c0;
                    (endTimestamp, w2) = (case toDate of None \<Rightarrow> Date_now w1 | Some e \<Rightarrow> (e, w1))
                in case plan_requests mkt tf since0 endTimestamp (fst c0) maxLimit timeframeInterval of
                     None \<Rightarrow> None
                   | Some plan \<Rightarrow>
                       (case fetch_requests_loop w2 (requests plan) [] of
                          (Inl e, w3) \<Rightarrow> Some (rethrow_logged (Inl e, w3))
                        | (Inr allData, w3) \<Rightarrow>
                            Some (aggregate w3 allData (totalLimit plan) timeframeInterval)))))"

section \<open>Persistence (persistence/db.ts)\<close>

definition getTableName :: "string \<Rightarrow> string \<Rightarrow> string" where
  "getTableName exchangeName marketType = exchangeName @ ''_'' @ marketType @ ''_ohlcv''"

definition row_key :: "'v OHLCVRow \<Rightarrow> string \<times> int" where
  "row_key r = (symbol r, open_time r)"

definition digit_of :: "char \<Rightarrow> int option" where
  \<comment> \<open>The value of a decimal digit; \<open>None\<close> for any other character.\<close>
  "digit_of c = map_of (zip ''0123456789'' [0, 1, 2, 3, 4, 5, 6, 7, 8, 9]) c"

fun digits_value :: "int \<Rightarrow> string \<Rightarrow> int option" where
  "digits_value acc [] = Some acc"
| "digits_value acc (c # cs) =
     (case digit_of c of None \<Rightarrow> None | Some d \<Rightarrow> digits_value (10 * acc + d) cs)"

definition strip_sign :: "string \<Rightarrow> bool \<times> string" where
  "strip_sign s =
     (case s of
        [] \<Rightarrow> (False, [])
      | c # cs \<Rightarrow> if c = CHR ''-'' then (True, cs)
                  else if c = CHR ''+'' then (False, cs) else (False, s))"

definition parse_exponent :: "string \<Rightarrow> int option" where
  \<comment> \<open>The part of a number text from its \<^verbatim>\<open>e\<close> on; no exponent is exponent 0.\<close>
  "parse_exponent ex =
     (if ex = [] then Some 0
      else (let (eneg, ed) = strip_sign (tl ex)
            in if ed = [] then None
               else (case digits_value 0 ed of
                       None \<Rightarrow> None
                     | Some e \<Rightarrow> Some (if eneg then - e else e))))"

definition parse_numeric :: "string \<Rightarrow> (bool \<times> int \<times> int) option" where
  \<comment> \<open>The number texts the store reads: an optional sign, digits with an optional
      fraction, an optional exponent (the forms \<^verbatim>\<open>Number.prototype.toString\<close> yields among
      them). \<open>Some (neg, n, k)\<close> is the number \<open>n * 10^k\<close>, negated when \<open>neg\<close>.\<close>
  "parse_numeric s =
     (let (neg, body) = strip_sign s;
          mant = takeWhile (\<lambda>c. c \<noteq> CHR ''e'' \<and> c \<noteq> CHR ''E'') body;
          ex = dropWhile (\<lambda>c. c \<noteq> CHR ''e'' \<and> c \<noteq> CHR ''E'') body;
          ip = takeWhile (\<lambda>c. c \<noteq> CHR ''.'') mant;
          fp = drop 1 (dropWhile (\<lambda>c. c \<noteq> CHR ''.'') mant)
      in if ip = [] \<and> fp = [] then None
         else (case digits_value 0 (ip @ fp) of
                 None \<Rightarrow> None
               | Some n \<Rightarrow>
                   (case parse_exponent ex of
                      None \<Rightarrow> None
                    | Some e \<Rightarrow> Some (neg, n, e - int (length fp)))))"

definition round_scaled :: "int \<Rightarrow> int \<Rightarrow> int" where
  \<comment> \<open>\<open>n * 10^k\<close> in units of \<open>10^-8\<close>, rounded to the nearest unit, ties away from zero.\<close>
  "round_scaled n k =
     (if 0 \<le> k + 8 then n * 10 ^ nat (k + 8)
      else (n + 10 ^ nat (- (k + 8)) div 2) div 10 ^ nat (- (k + 8)))"

definition numeric_20_8 :: "string \<Rightarrow> string + decimal" where
  \<comment> \<open>The store reading a text parameter into a \<^verbatim>\<open>DECIMAL(20,8)\<close> column: it rounds to 8
      decimals and rejects a value with more than 12 digits before the point, an infinite
      value, and a text that is not a number.\<close>
  "numeric_20_8 s =
     (if s = ''NaN'' then Inr DecNaN
      else if s = ''Infinity'' \<or> s = ''-Infinity'' then Inl ''numeric field overflow''
      else (case parse_numeric s of
              None \<Rightarrow> Inl ''invalid input syntax for type numeric''
            | Some (neg, n, k) \<Rightarrow>
                (let u = round_scaled n k
                 in if 10 ^ 20 \<le> u then Inl ''numeric field overflow''
                    else Inr (Dec (if neg then - u else u)))))"

definition time_value_ok :: "int \<Rightarrow> bool" where
  \<comment> \<open>The time values of a \<^verbatim>\<open>Date\<close>; on any other \<^verbatim>\<open>toISOString\<close> throws a \<^verbatim>\<open>RangeError\<close>.\<close>
  "time_value_ok t = (- 8640000000000000 \<le> t \<and> t \<le> 8640000000000000)"

definition timestamp_ok :: "int \<Rightarrow> bool" where
  \<comment> \<open>The instants of the years 0001 to 9999. For these \<^verbatim>\<open>toISOString\<close> writes the form
      \<^verbatim>\<open>YYYY-MM-DDTHH:mm:ss.sssZ\<close>, which a \<^verbatim>\<open>TIMESTAMP\<close> column reads exactly; for the others it
      writes a year of six digits with a sign, or the year 0000, which the column does not
      read.\<close>
  "timestamp_ok t = (- 62135596800000 \<le> t \<and> t \<le> 253402300799999)"

definition coerce_row :: "OHLCVDataItem \<Rightarrow> string + decimal OHLCVRow" where
  \<comment> \<open>The parameters of one row read into the column types: \<^verbatim>\<open>VARCHAR(50)\<close> for the symbol,
      \<^verbatim>\<open>TIMESTAMP\<close> for the two times (a stored time is kept as its epoch milliseconds),
      \<^verbatim>\<open>DECIMAL(20,8)\<close> for prices and volume.\<close>
  "coerce_row item =
     (if 50 < length (symbol item) then Inl ''value too long for type character varying(50)''
      else if timestamp_ok (open_time item) \<and> timestamp_ok (close_time item)
      then (case numeric_20_8 (open item) of Inl e \<Rightarrow> Inl e | Inr opn \<Rightarrow>
           (case numeric_20_8 (high item) of Inl e \<Rightarrow> Inl e | Inr hi \<Rightarrow>
           (case numeric_20_8 (low item) of Inl e \<Rightarrow> Inl e | Inr lo \<Rightarrow>
           (case numeric_20_8 (close item) of Inl e \<Rightarrow> Inl e | Inr cl \<Rightarrow>
           (case numeric_20_8 (volume item) of Inl e \<Rightarrow> Inl e | Inr vol \<Rightarrow>
              Inr \<lparr>symbol = symbol item, open_time = open_time item, open = opn, high = hi,
                   low = lo, close = cl, volume = vol, close_time = close_time item\<rparr>)))))
      else Inl ''invalid input syntax for type timestamp'')"

fun coerce_rows :: "OHLCVDataItem list \<Rightarrow> string + decimal OHLCVRow list" where
  "coerce_rows [] = Inr []"
| "coerce_rows (item # rest) =
     (case coerce_row item of
        Inl e \<Rightarrow> Inl e
      | Inr r \<Rightarrow> (case coerce_rows rest of Inl e \<Rightarrow> Inl e | Inr rs \<Rightarrow> Inr (r # rs)))"

fun upsert_row :: "table \<Rightarrow> decimal OHLCVRow \<Rightarrow> table" where
  \<comment> \<open>One row of \<^verbatim>\<open>INSERT ... ON CONFLICT (symbol, open_time) DO UPDATE SET open = excluded.open,
      high = excluded.high, low = excluded.low, close = excluded.close, volume = excluded.volume\<close>.\<close>
  "upsert_row [] row = [row]"
| "upsert_row (r # rs) row =
     (if row_key r = row_key row
      then r\<lparr>open := open row, high := high row, low := low row,
              close := close row, volume := volume row\<rparr> # rs
      else r # upsert_row rs row)"

definition insert_on_conflict :: "table \<Rightarrow> OHLCVDataItem list \<Rightarrow> string + table" where
  \<comment> \<open>The whole statement, with eight parameters to a row, of which a statement takes at
      most 65535: the parameters are read into the column types first; the store rejects a
      statement that proposes one key twice. A rejected statement changes nothing.\<close>
  "insert_on_conflict t data =
     (if 65535 < 8 * int (length data) then Inl ''too many parameters''
      else (case coerce_rows data of
              Inl e \<Rightarrow> Inl e
            | Inr rows \<Rightarrow>
                if distinct (map row_key rows) then Inr (foldl upsert_row t rows)
                else Inl ''ON CONFLICT DO UPDATE command cannot affect row a second time''))"

definition select_latest :: "table \<Rightarrow> string list \<Rightarrow> (string \<times> int) list" where
  \<comment> \<open>\<^verbatim>\<open>SELECT symbol, MAX(close_time) ... WHERE symbol = ANY($1) GROUP BY symbol\<close>, in epoch
      milliseconds.\<close>
  "select_latest t symbols =
     map (\<lambda>s. (s, Max (set (map close_time (filter (\<lambda>r. symbol r = s) t)))))
         (remdups (filter (\<lambda>s. s \<in> set symbols) (map symbol t)))"

definition run_query :: "(string \<rightharpoonup> table) \<Rightarrow> query \<Rightarrow> string + qresult \<times> (string \<rightharpoonup> table)" where
  \<comment> \<open>The three statements of the loader on the store: \<^verbatim>\<open>CREATE TABLE IF NOT EXISTS\<close>, the
      upsert, and the grouped maximum; the last two fail on a table that does not exist.\<close>
  "run_query tbs q =
     (case q of
        CreateTable name \<Rightarrow>
          Inr (Done, if tbs name = None then tbs(name \<mapsto> []) else tbs)
      | InsertRows name data \<Rightarrow>
          (case tbs name of
             None \<Rightarrow> Inl ''relation does not exist''
           | Some t \<Rightarrow>
               (case insert_on_conflict t data of
                  Inl e \<Rightarrow> Inl e
                | Inr t' \<Rightarrow> Inr (Done, tbs(name \<mapsto> t'))))
      | SelectLatest name symbols \<Rightarrow>
          (case tbs name of
             None \<Rightarrow> Inl ''relation does not exist''
           | Some t \<Rightarrow> Inr (Rows (select_latest t symbols), tbs)))"

definition pool_query :: "'n world \<Rightarrow> query \<Rightarrow> (error + qresult) \<times> 'n world" where
  \<comment> \<open>\<^verbatim>\<open>pool.query\<close>: a failed query leaves the tables as they are.\<close>
  "pool_query w q =
     (let w' = emit (Query q) (w\<lparr>queries := Suc (queries w)\<rparr>)
      in case db_fault w (queries w) of
           Some e \<Rightarrow> (Inl (Thrown e), w')
         | None \<Rightarrow>
             (case run_query (tables w) q of
                Inl e \<Rightarrow> (Inl (Thrown e), w')
              | Inr (res, tbs) \<Rightarrow> (Inr res, w'\<lparr>tables := tbs\<rparr>)))"

text \<open>
  Modelled from the spec: the helper \<^verbatim>\<open>retry\<close> of \<^verbatim>\<open>utils/retry\<close>, which is not among the
  sources. The spec describes it as a bounded retry with a fixed attempt ceiling and a
  fixed delay between attempts; once the ceiling is reached the last error is raised.
\<close>

fun retry_attempts ::
  "('n world \<Rightarrow> (error + 'a) \<times> 'n world) \<Rightarrow> nat \<Rightarrow> nat \<Rightarrow> error \<Rightarrow> 'n world
     \<Rightarrow> (error + 'a) \<times> 'n world" where
  "retry_attempts fn 0 delayMs lastError w = (Inl lastError, w)"
| "retry_attempts fn (Suc n) delayMs lastError w =
     (case fn w of
        (Inr v, w') \<Rightarrow> (Inr v, w')
      | (Inl e, w') \<Rightarrow> retry_attempts fn n delayMs e (if n = 0 then w' else sleep delayMs w'))"

definition retry ::
  "('n world \<Rightarrow> (error + 'a) \<times> 'n world) \<Rightarrow> nat \<Rightarrow> nat \<Rightarrow> 'n world
     \<Rightarrow> (error + 'a) \<times> 'n world" where
  "retry fn maxRetries delayMs w =
     retry_attempts fn maxRetries delayMs (Thrown ''retry: no attempt allowed'') w"

definition query_unit :: "query \<Rightarrow> 'n world \<Rightarrow> (error + unit) \<times> 'n world" where
  \<comment> \<open>\<^verbatim>\<open>async () => { await pool.query(...) }\<close>\<close>
  "query_unit q w = (case pool_query w q of (Inl e, w') \<Rightarrow> (Inl e, w') | (Inr _, w') \<Rightarrow> (Inr (), w'))"

definition ensureTableExists :: "'n world \<Rightarrow> string \<Rightarrow> string \<Rightarrow> (error + unit) \<times> 'n world" where
  "ensureTableExists w exchangeName marketType =
     retry (query_unit (CreateTable (getTableName exchangeName marketType)))
       (retry_default_attempts w) (retry_default_delay w) w"

definition persistToPostgres ::
  "'n world \<Rightarrow> OHLCVDataItem list \<Rightarrow> string \<Rightarrow> string \<Rightarrow> (error + unit) \<times> 'n world" where
  \<comment> \<open>Building the parameters calls \<^verbatim>\<open>new Date(t).toISOString()\<close> on the two times of every
      row, inside the \<^verbatim>\<open>try\<close> and before the query.\<close>
  "persistToPostgres w data exchangeName marketType =
     (if data = [] then (Inr (), w)
      else rethrow_logged
             (case find (\<lambda>item. \<not> (time_value_ok (open_time item)
                                   \<and> time_value_ok (close_time item))) data of
                Some item \<Rightarrow> (Inl (Thrown ''RangeError: Invalid time value''), w)
              | None \<Rightarrow>
                  retry (query_unit (InsertRows (getTableName exchangeName marketType) data))
                    (retry_default_attempts w) (retry_default_delay w) w))"

definition getLatestTimesForAllSymbols ::
  "'n world \<Rightarrow> string list \<Rightarrow> string \<Rightarrow> string \<Rightarrow> (string \<rightharpoonup> int) \<times> 'n world" where
  "getLatestTimesForAllSymbols w symbols exchangeName marketType =
     (case pool_query w (SelectLatest (getTableName exchangeName marketType) symbols) of
        (Inr (Rows rows), w') \<Rightarrow> (foldl (\<lambda>m (s, t). m(s \<mapsto> t)) Map.empty rows, w')
      | (_, w') \<Rightarrow> (Map.empty, w'))"

definition persist_batch ::
  "'n world \<Rightarrow> OHLCVDataItem list \<Rightarrow> string \<Rightarrow> string \<Rightarrow> nat \<Rightarrow> nat \<Rightarrow> nat \<Rightarrow> nat \<Rightarrow> 'n world" where
  \<comment> \<open>The body of the batch loop at index \<open>i\<close>: slice, deduplicate, retry, and the
      \<^verbatim>\<open>try\<close>/\<^verbatim>\<open>catch\<close> that logs either outcome.\<close>
  "persist_batch w data exchangeName marketType maxRetries retryDelayMs batchSize i =
     (let batchData = deduplicateOHLCVData (take batchSize (drop i data))
      in case retry (\<lambda>w. persistToPostgres w batchData exchangeName marketType)
                maxRetries retryDelayMs w of
           (Inr _, w') \<Rightarrow> emit (Batch_persisted i) w'
         | (Inl e, w') \<Rightarrow> emit (Batch_failed i e) w')"

function persist_batches_loop ::
  "'n world \<Rightarrow> OHLCVDataItem list \<Rightarrow> string \<Rightarrow> string \<Rightarrow> nat \<Rightarrow> nat \<Rightarrow> nat \<Rightarrow> nat \<Rightarrow> 'n world" where
  \<comment> \<open>\<^verbatim>\<open>for (let i = 0; i < data.length; i += batchSize)\<close>, from index \<open>i\<close> on. The loop is
      entered with a positive batch size only (see \<open>persistOHLCVInBatches\<close>).\<close>
  "persist_batches_loop w data exchangeName marketType maxRetries retryDelayMs batchSize i =
     (if batchSize = 0 \<or> length data \<le> i then w
      else persist_batches_loop
             (persist_batch w data exchangeName marketType maxRetries retryDelayMs batchSize i)
             data exchangeName marketType maxRetries retryDelayMs batchSize (i + batchSize))"
  by pat_completeness auto
termination
  by (relation "measure (\<lambda>(w, data, ex, mt, mr, d, batchSize, i). length data - i)") auto

definition persistOHLCVInBatches ::
  "'n world \<Rightarrow> OHLCVDataItem list \<Rightarrow> string \<Rightarrow> string \<Rightarrow> nat \<Rightarrow> nat
     \<Rightarrow> ((error + unit) \<times> 'n world) option" where
  \<comment> \<open>\<open>None\<close>: with a batch size that is not positive the index never passes the length and
      the loop does not terminate.\<close>
  "persistOHLCVInBatches w data exchangeName marketType maxRetries retryDelayMs =
     (if data = [] then Some (Inr (), w)
      else
        (case ensureTableExists w exchangeName marketType of
           (Inl e, w1) \<Rightarrow> Some (Inl e, w1)
         | (Inr _, w1) \<Rightarrow>
             (if PERSISTENCE_BATCH_SIZE w1 \<le> 0 then None
              else Some (Inr (), persist_batches_loop w1 data exchangeName marketType
                                   maxRetries retryDelayMs (nat (PERSISTENCE_BATCH_SIZE w1)) 0))))"

section \<open>One exchange (loading/fetch-exchange-ohlcv.ts)\<close>

definition interestedQuoteCurrencies :: "string list" where
  "interestedQuoteCurrencies = [''USD'', ''USDT'', ''USDC'', ''EUR'', ''EURI'']"

definition interestedFuturesSettlementCurrencies :: "string list" where
  "interestedFuturesSettlementCurrencies = [''USD'', ''USDC'', ''USDT'', ''EUR'']"

definition defaultQuoteFilter :: "Market list \<Rightarrow> Market list" where
  "defaultQuoteFilter markets =
     filter (\<lambda>el.
        if mk_type el = Some ''swap'' \<and>
           (case mk_settle el of None \<Rightarrow> True
            | Some st \<Rightarrow> st \<notin> set interestedFuturesSettlementCurrencies)
        then False
        else if (case mk_quote el of None \<Rightarrow> True
                 | Some q \<Rightarrow> q = [] \<or> q \<notin> set interestedQuoteCurrencies)
        then False
        else True) markets"

definition defaultMarketsFilter :: "string list \<Rightarrow> Market list \<Rightarrow> Market list" where
  \<comment> \<open>\<open>interestedMarkets\<close> is \<^verbatim>\<open>env.MARKET_TYPES\<close>.\<close>
  "defaultMarketsFilter interestedMarkets markets =
     filter (\<lambda>el.
        case mk_type el of
          None \<Rightarrow> False
        | Some ty \<Rightarrow>
            if ty \<notin> set interestedMarkets \<or>
               (mk_future el = Some False \<and> mk_swap el = Some False \<and> mk_contract el = Some False)
            then False
            else if mk_active el = Some False then False
            else True) markets"

record fetch_options =
  marketsFilter :: "(Market list \<Rightarrow> Market list) option"
  quoteFilter :: "(Market list \<Rightarrow> Market list) option"

definition resume_from :: "'n world \<Rightarrow> int option \<Rightarrow> int \<times> 'n world" where
  \<comment> \<open>Line 109. The start time is handed over as a date string with millisecond precision
      and read back by \<^verbatim>\<open>dateToTimestamp\<close>; the round trip is the identity on the timestamp.\<close>
  "resume_from w latestTime =
     (case latestTime of
        Some t \<Rightarrow> (t, w)
      | None \<Rightarrow> (let (now, w') = Date_now w in (now - HISTORICAL_DATA_TO_KEEP_MS w, w')))"

definition sync_symbol ::
  "('n \<Rightarrow> string) \<Rightarrow> 'n world \<Rightarrow> string \<Rightarrow> (string \<times> Market) list
     \<Rightarrow> (string \<rightharpoonup> int) \<Rightarrow> (string \<rightharpoonup> int) \<Rightarrow> string
     \<Rightarrow> ((error + unit) \<times> 'n world) option" where
  \<comment> \<open>The body of the symbol loop (lines 100--116); \<open>Inl\<close> is an exception leaving it.\<close>
  "sync_symbol toString w exchangeName markets latestSpotSymbolsTime latestPerpSymbolsTime smb =
     (case Option.bind (map_of markets smb) mk_type of
        None \<Rightarrow> Some (Inr (), emit (Warn_no_type smb) w)
      | Some mtype \<Rightarrow>
          if mtype = [] then Some (Inr (), emit (Warn_no_type smb) w)
          else
            (let latestTime = (if mtype = ''spot'' then latestSpotSymbolsTime smb
                               else latestPerpSymbolsTime smb);
                 (fromTime, w1) = resume_from w latestTime
             in case fetchOHLCVData w1 smb ''1m'' fromTime None of
                  None \<Rightarrow> None
                | Some (Inl e, w2) \<Rightarrow> Some (Inl e, w2)
                | Some (Inr rawOhlcvData, w2) \<Rightarrow>
                    (let (now, w3) = Date_now w2;
                         ohlcvData = parseOHLCVData toString now rawOhlcvData smb True
                     in persistOHLCVInBatches w3 ohlcvData exchangeName mtype 3 1000)))"

fun symbols_loop ::
  "('n \<Rightarrow> string) \<Rightarrow> string \<Rightarrow> (string \<times> Market) list
     \<Rightarrow> (string \<rightharpoonup> int) \<Rightarrow> (string \<rightharpoonup> int) \<Rightarrow> 'n world \<Rightarrow> string list
     \<Rightarrow> ((error + unit) \<times> 'n world) option" where
  "symbols_loop toString exchangeName markets latestSpot latestPerp w [] = Some (Inr (), w)"
| "symbols_loop toString exchangeName markets latestSpot latestPerp w (smb # rest) =
     (case sync_symbol toString w exchangeName markets latestSpot latestPerp smb of
        None \<Rightarrow> None
      | Some (Inl e, w') \<Rightarrow> Some (Inl e, w')
      | Some (Inr _, w') \<Rightarrow>
          symbols_loop toString exchangeName markets latestSpot latestPerp w' rest)"

definition symbols_of :: "Market list \<Rightarrow> string list" where
  \<comment> \<open>\<^verbatim>\<open>filteredMarkets.map(el => el?.symbol).filter(Boolean)\<close>\<close>
  "symbols_of filteredMarkets =
     List.map_filter (\<lambda>el. case mk_symbol el of None \<Rightarrow> None
                            | Some s \<Rightarrow> if s = [] then None else Some s) filteredMarkets"

definition sync_exchange_body ::
  "('n \<Rightarrow> string) \<Rightarrow> 'n world \<Rightarrow> string \<Rightarrow> fetch_options
     \<Rightarrow> ((error + unit) \<times> 'n world) option" where
  \<comment> \<open>The \<^verbatim>\<open>try\<close> block, lines 80--117.\<close>
  "sync_exchange_body toString w exchangeName opts =
     (case load_markets w exchangeName of
        Inl e \<Rightarrow> Some (Inl (Thrown e), w)
      | Inr markets \<Rightarrow>
          (let mFilter = (case marketsFilter opts of
                            None \<Rightarrow> defaultMarketsFilter (MARKET_TYPES w) | Some f \<Rightarrow> f);
               qFilter = (case quoteFilter opts of None \<Rightarrow> defaultQuoteFilter | Some f \<Rightarrow> f);
               marketsArr = map snd markets;
               filteredMarkets = mFilter (qFilter marketsArr);
               symbols = symbols_of filteredMarkets;
               (latestSpotSymbolsTime, w1) =
                  getLatestTimesForAllSymbols w symbols exchangeName ''swap'';
               (latestPerpSymbolsTime, w2) =
                  getLatestTimesForAllSymbols w1 symbols exchangeName ''spot''
           in symbols_loop toString exchangeName markets
                latestSpotSymbolsTime latestPerpSymbolsTime w2 symbols))"

definition fetchExchangeOHLCV ::
  "('n \<Rightarrow> string) \<Rightarrow> 'n world \<Rightarrow> string \<Rightarrow> fetch_options \<Rightarrow> 'n world option" where
  \<comment> \<open>From the \<^verbatim>\<open>try\<close> on: the \<^verbatim>\<open>catch\<close> logs the error and the \<^verbatim>\<open>finally\<close> closes the
      exchange. The construction of the client before it (lines 62--78) only logs.\<close>
  "fetchExchangeOHLCV toString w exchangeName opts =
     (case sync_exchange_body toString w exchangeName opts of
        None \<Rightarrow> None
      | Some (Inl e, w') \<Rightarrow> Some (emit Closed (emit (Error_logged e) w'))
      | Some (Inr _, w') \<Rightarrow> Some (emit Closed w'))"

section \<open>The scheduled trigger (server/cron-sync.ts)\<close>

text \<open>
  \<^verbatim>\<open>onTick\<close> is an asynchronous function: a call runs up to its first \<^verbatim>\<open>await\<close> and is
  resumed later, other calls running in between. The state is the module variable
  \<open>syncing\<close> together with the calls whose sync work has started and not yet finished.
  \<open>Tick\<close> is the scheduler firing; \<open>Finish k\<close> is the work of the \<open>k\<close>-th tick coming to its
  end (normally or by an exception), which runs the \<^verbatim>\<open>finally\<close> block.
\<close>

record cron_state =
  syncing :: bool
  in_progress :: "nat list"
  fired :: nat

datatype cron_event = Tick | Finish nat

definition cron_init :: cron_state where
  "cron_init = \<lparr>syncing = False, in_progress = [], fired = 0\<rparr>"

definition onTick_enter :: "cron_state \<Rightarrow> cron_state" where
  \<comment> \<open>A tick that finds \<open>syncing\<close> set skips the work and falls through to \<^verbatim>\<open>finally\<close>.\<close>
  "onTick_enter s =
     (if \<not> syncing s
      then s\<lparr>syncing := True, in_progress := in_progress s @ [fired s], fired := Suc (fired s)\<rparr>
      else s\<lparr>syncing := False, fired := Suc (fired s)\<rparr>)"

definition onTick_finish :: "nat \<Rightarrow> cron_state \<Rightarrow> cron_state" where
  "onTick_finish k s =
     (if k \<in> set (in_progress s)
      then s\<lparr>syncing := False, in_progress := removeAll k (in_progress s)\<rparr>
      else s)"

fun cron_step :: "cron_state \<Rightarrow> cron_event \<Rightarrow> cron_state" where
  "cron_step s Tick = onTick_enter s"
| "cron_step s (Finish k) = onTick_finish k s"

definition cron_run :: "cron_event list \<Rightarrow> cron_state" where
  "cron_run evs = foldl cron_step cron_init evs"

section \<open>Notions used to state the properties\<close>

definition row_stored :: "table \<Rightarrow> OHLCVDataItem \<Rightarrow> bool" where
  \<comment> \<open>The table has a row with the key of \<open>item\<close> that carries its prices and volume, as
      the \<^verbatim>\<open>DECIMAL(20,8)\<close> columns read them.\<close>
  "row_stored t item =
     (case find (\<lambda>r. row_key r = row_key item) t of
        None \<Rightarrow> False
      | Some r \<Rightarrow> numeric_20_8 (open item) = Inr (open r)
                  \<and> numeric_20_8 (high item) = Inr (high r)
                  \<and> numeric_20_8 (low item) = Inr (low r)
                  \<and> numeric_20_8 (close item) = Inr (close r)
                  \<and> numeric_20_8 (volume item) = Inr (volume r))"

definition keys_of :: "(string \<rightharpoonup> table) \<Rightarrow> string \<Rightarrow> (string \<times> int) set" where
  "keys_of tbs name = (case tbs name of None \<Rightarrow> {} | Some t \<Rightarrow> row_key ` set t)"

definition row_at :: "(string \<rightharpoonup> table) \<Rightarrow> string \<Rightarrow> string \<times> int \<Rightarrow> decimal OHLCVRow option" where
  \<comment> \<open>The row with key \<open>k\<close> in the table \<open>name\<close>, if there is one.\<close>
  "row_at tbs name k = (case tbs name of None \<Rightarrow> None | Some t \<Rightarrow> find (\<lambda>r. row_key r = k) t)"

definition grows :: "'n world \<Rightarrow> 'n world \<Rightarrow> bool" where
  \<comment> \<open>Nothing logged is lost and no key leaves a table.\<close>
  "grows w w' = (prefix (trace w) (trace w')
                 \<and> (\<forall>name. keys_of (tables w) name \<subseteq> keys_of (tables w') name))"

definition new_events :: "'n world \<Rightarrow> 'n world \<Rightarrow> event list" where
  \<comment> \<open>What \<open>w'\<close> has logged beyond \<open>w\<close>.\<close>
  "new_events w w' = drop (length (trace w)) (trace w')"

definition batch_events :: "event list \<Rightarrow> event list" where
  "batch_events evs =
     filter (\<lambda>ev. case ev of Batch_persisted i \<Rightarrow> True | Batch_failed i e \<Rightarrow> True | _ \<Rightarrow> False) evs"

definition fetches :: "event list \<Rightarrow> fetch_request list" where
  "fetches evs = List.map_filter (\<lambda>ev. case ev of Fetch r \<Rightarrow> Some r | _ \<Rightarrow> None) evs"

section \<open>Example inputs\<close>

definition page_a :: "nat RawOHLCVData list" where
  "page_a = map (\<lambda>i. (int i * 60000, 1, 1, 1, 1, 1)) [0..<11]"

definition page_b :: "nat RawOHLCVData list" where
  "page_b = map (\<lambda>i. (int i * 60000, 2, 2, 2, 2, 2)) [1..<12]"

definition quiet_world :: "nat world" where
  \<comment> \<open>An exchange with no data, an empty store without faults, a clock standing at
      \<open>1700000600000\<close>, and the default configuration.\<close>
  "quiet_world =
     \<lparr>exchange = (\<lambda>k req. Candles []), calls = 0, load_markets = (\<lambda>name. Inr []),
      clock = (\<lambda>k. 1700000600000), reads = 0, tables = Map.empty,
      db_fault = (\<lambda>k. None), queries = 0, trace = [],
      PERSISTENCE_BATCH_SIZE = 1000, HISTORICAL_DATA_TO_KEEP_MS = 7776000000,
      MARKET_TYPES = [''spot'', ''swap''],
      retry_default_attempts = 3, retry_default_delay = 1000\<rparr>"

definition candle_at :: "int \<Rightarrow> nat RawOHLCVData" where
  "candle_at t = (t, 1, 1, 1, 1, 1)"

definition gap_world :: "nat world" where
  \<comment> \<open>The probe and the first page return two candles, the second page is empty, the
      third page returns two candles again.\<close>
  "gap_world = quiet_world\<lparr>exchange := (\<lambda>k req.
       if k = 0 \<or> k = 1 then Candles [candle_at 0, candle_at 60000]
       else if k = 3 then Candles [candle_at 240000, candle_at 300000]
       else Candles [])\<rparr>"

definition gap_pages :: "nat RawOHLCVData list" where
  "gap_pages = [candle_at 0, candle_at 60000, candle_at 240000, candle_at 300000]"

definition page_request :: fetch_request where
  "page_request = \<lparr>market = ''BTC/USDT'', timeframe = ''1m'', since = 0, limit = LIMIT\<rparr>"

definition throttled_twice_world :: "nat world" where
  \<comment> \<open>The exchange answers its first two calls with a rate-limit error and then delivers.\<close>
  "throttled_twice_world = quiet_world\<lparr>exchange := (\<lambda>k req.
       if k < 2 then Fails ''RateLimitExceeded: 429 Too Many Requests''
       else Candles [candle_at 0, candle_at 60000])\<rparr>"

definition throttled_world :: "nat world" where
  "throttled_world = quiet_world\<lparr>exchange := (\<lambda>k req. Fails ''DDoSProtection: rate limit exceeded'')\<rparr>"

definition broken_world :: "nat world" where
  "broken_world = quiet_world\<lparr>exchange := (\<lambda>k req.
       if k = 0 then Fails ''RateLimitExceeded: 429 Too Many Requests''
       else Fails ''NetworkError: socket hang up'')\<rparr>"

definition recent_candles :: "nat RawOHLCVData list" where
  \<comment> \<open>The two candles before the last full minute of the clock of \<open>quiet_world\<close>.\<close>
  "recent_candles = [candle_at 1700000480000, candle_at 1700000540000]"

definition recent_request :: fetch_request where
  "recent_request =
     \<lparr>market = ''BTC/USDT'', timeframe = ''1m'', since = 1700000480000, limit = LIMIT\<rparr>"

definition throttled_run_world :: "nat world" where
  \<comment> \<open>The probe delivers the two recent candles; every later call is answered with a
      rate-limit error.\<close>
  "throttled_run_world = quiet_world\<lparr>exchange := (\<lambda>k req.
       if k = 0 then Candles recent_candles
       else Fails ''RateLimitExceeded: 429 Too Many Requests'')\<rparr>"

definition recovering_world :: "nat world" where
  \<comment> \<open>The probe delivers the two recent candles; the page request is answered with a
      rate-limit error twice and then with the candles.\<close>
  "recovering_world = quiet_world\<lparr>exchange := (\<lambda>k req.
       if k = 1 \<or> k = 2 then Fails ''RateLimitExceeded: 429 Too Many Requests''
       else Candles recent_candles)\<rparr>"





definition minute_item :: "nat \<Rightarrow> OHLCVDataItem" where
  "minute_item i = \<lparr>symbol = ''BTC/USDT'', open_time = int i * 60000, open = ''1'', high = ''1'',
                     low = ''1'', close = ''1'', volume = ''1'',
                     close_time = int i * 60000 + 60000\<rparr>"

definition five_items :: "OHLCVDataItem list" where
  "five_items = map minute_item [0..<5]"

definition minute_row :: "nat \<Rightarrow> decimal OHLCVRow" where
  \<comment> \<open>\<open>minute_item i\<close> as the store holds it.\<close>
  "minute_row i = \<lparr>symbol = ''BTC/USDT'', open_time = int i * 60000, open = Dec 100000000,
                    high = Dec 100000000, low = Dec 100000000, close = Dec 100000000,
                    volume = Dec 100000000, close_time = int i * 60000 + 60000\<rparr>"

definition flaky_db_world :: "nat world" where
  \<comment> \<open>Batches of two rows; the queries 2 to 10, which are all the attempts of the second
      batch, fail.\<close>
  "flaky_db_world = quiet_world\<lparr>PERSISTENCE_BATCH_SIZE := 2,
     db_fault := (\<lambda>k. if 2 \<le> k \<and> k \<le> 10 then Some ''Connection terminated unexpectedly''
                      else None)\<rparr>"

definition overflow_items :: "OHLCVDataItem list" where
  \<comment> \<open>Three rows; the volume of the second is \<open>10^12\<close>.\<close>
  "overflow_items =
     [minute_item 0, (minute_item 1)\<lparr>volume := ''1000000000000''\<rparr>, minute_item 2]"

definition single_row_world :: "nat world" where
  \<comment> \<open>Batches of one row, a store without faults.\<close>
  "single_row_world = quiet_world\<lparr>PERSISTENCE_BATCH_SIZE := 1\<rparr>"

definition swap_market :: "string \<Rightarrow> Market" where
  "swap_market s =
     \<lparr>mk_symbol = Some s, mk_type = Some ''swap'', mk_settle = Some ''USDT'',
      mk_quote = Some ''USDT'', mk_active = Some True, mk_future = Some False,
      mk_swap = Some True, mk_contract = Some True\<rparr>"

definition default_options :: fetch_options where
  "default_options = \<lparr>marketsFilter = None, quoteFilter = None\<rparr>"

definition persisted_row :: "decimal OHLCVRow" where
  "persisted_row = \<lparr>symbol = ''BTC/USDT:USDT'', open_time = 1699999940000, open = Dec 100000000,
                     high = Dec 100000000, low = Dec 100000000, close = Dec 100000000,
                     volume = Dec 100000000, close_time = 1700000000000\<rparr>"

definition resume_world :: "nat world" where
  \<comment> \<open>One perpetual market on the exchange, with one candle already persisted in the swap
      partition; the clock stands at \<open>1700000600000\<close>.\<close>
  "resume_world = quiet_world\<lparr>
     load_markets := (\<lambda>name. Inr [(''BTC/USDT:USDT'', swap_market ''BTC/USDT:USDT'')]),
     tables := [''binance_swap_ohlcv'' \<mapsto> [persisted_row]]\<rparr>"

definition two_markets :: "(string \<times> Market) list" where
  "two_markets = [(''BTC/USDT:USDT'', swap_market ''BTC/USDT:USDT''),
                  (''ETH/USDT:USDT'', swap_market ''ETH/USDT:USDT'')]"

definition two_symbol_world :: "nat world" where
  \<comment> \<open>Two perpetual markets; the exchange has no candles for the first and two for the
      second.\<close>
  "two_symbol_world = quiet_world\<lparr>
     load_markets := (\<lambda>name. Inr two_markets),
     exchange := (\<lambda>k req. if market req = ''ETH/USDT:USDT''
                            then Candles [candle_at 1700000000000, candle_at 1700000060000]
                            else Candles [])\<rparr>"

section \<open>Properties of parsing\<close>

lemma parseCandle_fields:
  "symbol (parseCandle ts smb c) = smb"
  "open_time (parseCandle ts smb c) = fst c"
  "close_time (parseCandle ts smb c) = fst c + 60000"
  by (simp_all add: parseCandle_def split: prod.splits)

lemma parse_default_eq:
  "parseOHLCVData ts now raw smb True =
     map (parseCandle ts smb) (filter (\<lambda>c. fst c + 60000 \<le> now) raw)"
  by (simp add: parseOHLCVData_def filterCompleteCandles_def filter_map o_def parseCandle_fields)

text \<open>
  C10. With the default flag (\<open>excludeIncomplete = true\<close>, as the pipeline calls it),
  parsing sets \<open>close_time = open_time + 60000\<close> on every candle, drops exactly the
  candles whose close time lies strictly after \<open>now\<close>, and keeps the others in input
  order.
\<close>

theorem parse_excludes_open_candles:
  "parseOHLCVData ts now raw smb True =
     map (parseCandle ts smb) (filter (\<lambda>c. fst c + 60000 \<le> now) raw)
   \<and> (\<forall>item \<in> set (parseOHLCVData ts now raw smb True).
        close_time item = open_time item + 60000 \<and> close_time item \<le> now \<and> symbol item = smb)
   \<and> (\<forall>c \<in> set raw. now < fst c + 60000 \<longrightarrow>
        parseCandle ts smb c \<notin> set (parseOHLCVData ts now raw smb True))
   \<and> map open_time (parseOHLCVData ts now raw smb True) =
        filter (\<lambda>t. t + 60000 \<le> now) (map fst raw)"
proof -
  let ?res = "parseOHLCVData ts now raw smb True"
  have eq: "?res = map (parseCandle ts smb) (filter (\<lambda>c. fst c + 60000 \<le> now) raw)"
    by (rule parse_default_eq)
  have fields: "\<forall>item \<in> set ?res.
      close_time item = open_time item + 60000 \<and> close_time item \<le> now \<and> symbol item = smb"
    unfolding eq by (auto simp: parseCandle_fields)
  have excl: "\<forall>c \<in> set raw. now < fst c + 60000 \<longrightarrow> parseCandle ts smb c \<notin> set ?res"
  proof (intro ballI impI notI)
    fix c assume "c \<in> set raw" "now < fst c + 60000" "parseCandle ts smb c \<in> set ?res"
    with fields have "close_time (parseCandle ts smb c) \<le> now" by blast
    with \<open>now < fst c + 60000\<close> show False by (simp add: parseCandle_fields)
  qed
  have order: "map open_time ?res = filter (\<lambda>t. t + 60000 \<le> now) (map fst raw)"
    unfolding eq by (simp add: filter_map o_def parseCandle_fields)
  from eq fields excl order show ?thesis by blast
qed

theorem parse_excludes_open_candles_witness:
  "parseOHLCVData (\<lambda>n::nat. if n = 0 then ''0'' else ''1'') 200000
      [(0, 1, 1, 1, 1, 0), (60000, 1, 1, 0, 1, 1), (120000, 1, 1, 1, 1, 1), (180000, 0, 1, 0, 1, 1)]
      ''BTC/USDT'' True =
   [\<lparr>symbol = ''BTC/USDT'', open_time = 0, open = ''1'', high = ''1'', low = ''1'',
      close = ''1'', volume = ''0'', close_time = 60000\<rparr>,
    \<lparr>symbol = ''BTC/USDT'', open_time = 60000, open = ''1'', high = ''1'', low = ''0'',
      close = ''1'', volume = ''1'', close_time = 120000\<rparr>,
    \<lparr>symbol = ''BTC/USDT'', open_time = 120000, open = ''1'', high = ''1'', low = ''1'',
      close = ''1'', volume = ''1'', close_time = 180000\<rparr>]"
  using parse_excludes_open_candles
    [of "\<lambda>n::nat. if n = 0 then ''0'' else ''1''" 200000
        "[(0, 1, 1, 1, 1, 0), (60000, 1, 1, 0, 1, 1), (120000, 1, 1, 1, 1, 1), (180000, 0, 1, 0, 1, 1)]"
        "''BTC/USDT''"]
  by (simp add: parseCandle_def)

section \<open>Properties of the range planner\<close>

lemma js_ceil_div_eq: "js_ceil_div a b = \<lceil>real_of_int a / real_of_int b\<rceil>"
proof -
  have "\<lfloor>real_of_int (- a) / real_of_int b\<rfloor> = (- a) div b"
    by (rule floor_divide_of_int_eq)
  then show ?thesis
    by (simp add: js_ceil_div_def ceiling_def)
qed

lemma prepare_requests_length:
  "length (prepare_requests mkt tf since0 numReq maxLimit iv) = nat numReq"
  by (simp add: prepare_requests_def)

lemma prepare_requests_nth:
  "i < nat numReq \<Longrightarrow>
   prepare_requests mkt tf since0 numReq maxLimit iv ! i =
     \<lparr>market = mkt, timeframe = tf, since = since0 + int i * maxLimit * iv, limit = LIMIT\<rparr>"
  by (simp add: prepare_requests_def)

text \<open>
  C4. For a probe with a non-zero interval the planner computes
  \<open>totalLimit = \<lceil>(end - first) / interval\<rceil>\<close> and \<open>numRequests = \<lceil>totalLimit / maxLimit\<rceil>\<close>,
  emits that many requests (none when the number is not positive), request \<open>i\<close> starting
  at \<open>since + i * maxLimit * interval\<close>; 500 candles at 60000 ms with the end 10000
  intervals after the first candle give 10000 and 20.
\<close>

theorem planner_formula:
  assumes "timeframeInterval \<noteq> 0" and "0 < maxLimit"
  shows "\<exists>p. plan_requests mkt tf since0 endTimestamp first maxLimit timeframeInterval = Some p
     \<and> totalLimit p = \<lceil>real_of_int (endTimestamp - first) / real_of_int timeframeInterval\<rceil>
     \<and> numRequests p = \<lceil>real_of_int (totalLimit p) / real_of_int maxLimit\<rceil>
     \<and> length (requests p) = nat (numRequests p)
     \<and> (\<forall>i < length (requests p).
           requests p ! i = \<lparr>market = mkt, timeframe = tf,
              since = since0 + int i * maxLimit * timeframeInterval, limit = LIMIT\<rparr>)
     \<and> (maxLimit = 500 \<and> timeframeInterval = 60000 \<and> endTimestamp = first + 10000 * 60000
          \<longrightarrow> totalLimit p = 10000 \<and> numRequests p = 20 \<and> length (requests p) = 20)"
proof -
  let ?t = "js_ceil_div (endTimestamp - first) timeframeInterval"
  let ?n = "js_ceil_div ?t maxLimit"
  let ?p = "\<lparr>totalLimit = ?t, numRequests = ?n,
             requests = prepare_requests mkt tf since0 ?n maxLimit timeframeInterval\<rparr>"
  have plan: "plan_requests mkt tf since0 endTimestamp first maxLimit timeframeInterval = Some ?p"
    using assms(1) by (simp add: plan_requests_def Let_def)
  have t: "totalLimit ?p = \<lceil>real_of_int (endTimestamp - first) / real_of_int timeframeInterval\<rceil>"
    by (simp only: fetch_plan.simps js_ceil_div_eq)
  have n: "numRequests ?p = \<lceil>real_of_int (totalLimit ?p) / real_of_int maxLimit\<rceil>"
    by (simp only: fetch_plan.simps js_ceil_div_eq)
  have len: "length (requests ?p) = nat (numRequests ?p)"
    by (simp add: prepare_requests_length)
  have nth: "\<forall>i < length (requests ?p).
           requests ?p ! i = \<lparr>market = mkt, timeframe = tf,
              since = since0 + int i * maxLimit * timeframeInterval, limit = LIMIT\<rparr>"
    by (simp add: prepare_requests_length prepare_requests_nth)
  have scen: "maxLimit = 500 \<and> timeframeInterval = 60000 \<and> endTimestamp = first + 10000 * 60000
          \<longrightarrow> totalLimit ?p = 10000 \<and> numRequests ?p = 20 \<and> length (requests ?p) = 20"
    by (simp add: js_ceil_div_def prepare_requests_length)
  from plan t n len nth scen show ?thesis by blast
qed

theorem planner_formula_witness:
  "(60000::int) \<noteq> 0 \<and> (0::int) < 500 \<and>
   (\<exists>p. plan_requests ''BTC/USDT'' ''1m'' 1700000040000 (1700000000000 + 10000 * 60000)
           1700000000000 500 60000 = Some p
      \<and> totalLimit p = 10000 \<and> numRequests p = 20 \<and> length (requests p) = 20
      \<and> since (requests p ! 19) = 1700000040000 + 19 * 500 * 60000)"
proof -
  have h1: "(60000::int) \<noteq> 0" and h2: "(0::int) < 500" by simp_all
  from planner_formula [OF h1 h2, of "''BTC/USDT''" "''1m''" 1700000040000
                          "1700000000000 + 10000 * 60000" 1700000000000]
  obtain p where p: "plan_requests ''BTC/USDT'' ''1m'' 1700000040000 (1700000000000 + 10000 * 60000)
           1700000000000 500 60000 = Some p"
    and s: "totalLimit p = 10000 \<and> numRequests p = 20 \<and> length (requests p) = 20"
    and nth: "\<forall>i < length (requests p).
           requests p ! i = \<lparr>market = ''BTC/USDT'', timeframe = ''1m'',
              since = 1700000040000 + int i * 500 * 60000, limit = LIMIT\<rparr>"
    by auto
  from s nth have "since (requests p ! 19) = 1700000040000 + 19 * 500 * 60000" by simp
  with p s show ?thesis by auto
qed

section \<open>Properties of the merge step\<close>

lemma uniqueData_loop_keys:
  "fst ` set (uniqueData_loop S xs) = fst ` set xs - S"
  by (induction xs arbitrary: S) (auto simp: Let_def)

lemma uniqueData_loop_subset:
  "set (uniqueData_loop S xs) \<subseteq> set xs"
  by (induction xs arbitrary: S) (auto simp: Let_def)

lemma uniqueData_loop_distinct:
  "distinct (map fst (uniqueData_loop S xs))"
proof (induction xs arbitrary: S)
  case Nil
  show ?case by simp
next
  case (Cons c cs)
  have "fst c \<notin> fst ` set (uniqueData_loop (insert (fst c) S) cs)"
    by (simp add: uniqueData_loop_keys)
  with Cons show ?case by (simp add: Let_def)
qed

lemma uniqueData_loop_first_seen:
  "c \<in> set (uniqueData_loop S xs) \<Longrightarrow> find (\<lambda>d. fst d = fst c) xs = Some c"
proof (induction xs arbitrary: S)
  case Nil
  then show ?case by simp
next
  case (Cons x xs)
  show ?case
  proof (cases "fst x \<in> S")
    case True
    with Cons.prems have mem: "c \<in> set (uniqueData_loop S xs)" by (simp add: Let_def)
    then have "fst c \<in> fst ` set xs - S" by (metis imageI uniqueData_loop_keys)
    with True have "fst x \<noteq> fst c" by auto
    with Cons.IH [OF mem] show ?thesis by simp
  next
    case False
    with Cons.prems have "c = x \<or> c \<in> set (uniqueData_loop (insert (fst x) S) xs)"
      by (simp add: Let_def)
    then show ?thesis
    proof
      assume "c = x" then show ?thesis by simp
    next
      assume mem: "c \<in> set (uniqueData_loop (insert (fst x) S) xs)"
      then have "fst c \<in> fst ` set xs - insert (fst x) S" by (metis imageI uniqueData_loop_keys)
      then have "fst x \<noteq> fst c" by auto
      with Cons.IH [OF mem] show ?thesis by simp
    qed
  qed
qed

lemma uniqueData_loop_length:
  "length (uniqueData_loop S xs) = card (fst ` set xs - S)"
proof -
  have "length (uniqueData_loop S xs) = length (map fst (uniqueData_loop S xs))" by simp
  also have "\<dots> = card (set (map fst (uniqueData_loop S xs)))"
    by (rule distinct_card [symmetric]) (rule uniqueData_loop_distinct)
  also have "\<dots> = card (fst ` set xs - S)" by (simp add: uniqueData_loop_keys)
  finally show ?thesis .
qed

lemma distinct_map_sort_key:
  "distinct (map f (sort_key f xs)) = distinct (map f xs)"
  by (induction xs) (auto simp: distinct_insort_key)

lemma sorted_unique_strict:
  "sorted_wrt (<) (map fst (sort_key fst (uniqueData_loop {} xs)))"
  by (simp add: strict_sorted_iff distinct_map_sort_key uniqueData_loop_distinct)

lemma js_slice0_take: "\<exists>n. js_slice0 xs e = take n xs"
  by (auto simp: js_slice0_def)

lemma js_slice0_all: "int (length xs) \<le> e \<Longrightarrow> js_slice0 xs e = xs"
  by (simp add: js_slice0_def)

lemma js_slice0_length: "0 \<le> e \<Longrightarrow> int (length (js_slice0 xs e)) \<le> e"
  by (simp add: js_slice0_def)

lemma finalData_strict: "sorted_wrt (<) (map fst (finalData allData totalLim))"
proof -
  obtain n where n: "finalData allData totalLim = take n (sort_key fst (uniqueData_loop {} allData))"
    unfolding finalData_def using js_slice0_take by blast
  have "sorted_wrt (<) (take n (map fst (sort_key fst (uniqueData_loop {} allData))))"
    by (rule sorted_wrt_take) (rule sorted_unique_strict)
  then show ?thesis by (simp add: n take_map)
qed

lemma finalData_subset:
  "set (finalData allData totalLim) \<subseteq> set (uniqueData_loop {} allData)"
proof -
  obtain n where n: "finalData allData totalLim = take n (sort_key fst (uniqueData_loop {} allData))"
    unfolding finalData_def using js_slice0_take by blast
  show ?thesis unfolding n using set_take_subset [of n "sort_key fst (uniqueData_loop {} allData)"]
    by simp
qed

lemma finalData_untrimmed:
  assumes "int (card (fst ` set allData)) \<le> totalLim"
  shows "finalData allData totalLim = sort_key fst (uniqueData_loop {} allData)"
  unfolding finalData_def using assms
  by (intro js_slice0_all) (simp add: uniqueData_loop_length)

lemma first_page_kept:
  assumes "distinct (map fst page1)"
  shows "uniqueData_loop S (page1 @ page2) =
         filter (\<lambda>c. fst c \<notin> S) page1 @ uniqueData_loop (S \<union> fst ` set page1) page2"
  using assms
proof (induction page1 arbitrary: S)
  case Nil
  show ?case by simp
next
  case (Cons c cs)
  have keep: "filter (\<lambda>d. fst d \<notin> insert (fst c) S) cs = filter (\<lambda>d. fst d \<notin> S) cs"
  proof (rule filter_cong [OF refl])
    fix d assume "d \<in> set cs"
    then have "fst d \<in> fst ` set cs" by (rule imageI)
    moreover from Cons.prems have "fst c \<notin> fst ` set cs" by simp
    ultimately have "fst d \<noteq> fst c" by metis
    then show "(fst d \<notin> insert (fst c) S) = (fst d \<notin> S)" by simp
  qed
  have un: "insert (fst c) S \<union> fst ` set cs = S \<union> fst ` set (c # cs)" by auto
  from Cons.prems have d: "distinct (map fst cs)" by simp
  show ?case
  proof (cases "fst c \<in> S")
    case True
    then have "S \<union> fst ` set (c # cs) = S \<union> fst ` set cs" by auto
    with True Cons.IH [OF d, of S] show ?thesis by (simp add: Let_def)
  next
    case False
    with Cons.IH [OF d, of "insert (fst c) S"] keep un show ?thesis by (simp add: Let_def)
  qed
qed

lemma two_pages_length:
  assumes d1: "distinct (map fst page1)" and d2: "distinct (map fst page2)"
  shows "length (uniqueData_loop {} (page1 @ page2)) + card (fst ` set page1 \<inter> fst ` set page2)
         = length page1 + length page2"
proof -
  let ?A = "fst ` set page1" and ?B = "fst ` set page2"
  have cA: "card ?A = length page1" using distinct_card [OF d1] by simp
  have cB: "card ?B = length page2" using distinct_card [OF d2] by simp
  have "length (uniqueData_loop {} (page1 @ page2)) = card (?A \<union> ?B)"
    by (simp add: uniqueData_loop_length image_Un)
  moreover have "card (?A \<union> ?B) + card (?A \<inter> ?B) = card ?A + card ?B"
    by (rule card_Un_Int [symmetric]) simp_all
  ultimately show ?thesis using cA cB by simp
qed

text \<open>
  C5. The merged output is strictly ascending in the timestamp (hence free of duplicates),
  has at most \<open>totalLimit\<close> entries, and every entry is the first candle of the input
  with its timestamp; two pages sharing 10 timestamps merge to the sum of their sizes
  minus 10, the candles of the first page being kept.
\<close>

theorem merge_sorted_unique_first_seen:
  "sorted_wrt (<) (map fst (finalData allData totalLim))
   \<and> (0 \<le> totalLim \<longrightarrow> int (length (finalData allData totalLim)) \<le> totalLim)
   \<and> (\<forall>c \<in> set (finalData allData totalLim). find (\<lambda>d. fst d = fst c) allData = Some c)
   \<and> (int (card (fst ` set allData)) \<le> totalLim \<longrightarrow>
        fst ` set (finalData allData totalLim) = fst ` set allData)
   \<and> (distinct (map fst page1) \<and> distinct (map fst page2)
        \<and> card (fst ` set page1 \<inter> fst ` set page2) = 10
        \<and> int (length page1 + length page2) - 10 \<le> totalLim \<longrightarrow>
          length (finalData (page1 @ page2) totalLim) = length page1 + length page2 - 10
          \<and> set page1 \<subseteq> set (finalData (page1 @ page2) totalLim))"
proof -
  have a: "sorted_wrt (<) (map fst (finalData allData totalLim))"
    by (rule finalData_strict)
  have b: "0 \<le> totalLim \<longrightarrow> int (length (finalData allData totalLim)) \<le> totalLim"
    by (simp add: finalData_def js_slice0_length)
  have c: "\<forall>c \<in> set (finalData allData totalLim). find (\<lambda>d. fst d = fst c) allData = Some c"
    using finalData_subset uniqueData_loop_first_seen by blast
  have d: "int (card (fst ` set allData)) \<le> totalLim \<longrightarrow>
        fst ` set (finalData allData totalLim) = fst ` set allData"
    by (simp add: finalData_untrimmed uniqueData_loop_keys)
  have e: "distinct (map fst page1) \<and> distinct (map fst page2)
        \<and> card (fst ` set page1 \<inter> fst ` set page2) = 10
        \<and> int (length page1 + length page2) - 10 \<le> totalLim \<longrightarrow>
          length (finalData (page1 @ page2) totalLim) = length page1 + length page2 - 10
          \<and> set page1 \<subseteq> set (finalData (page1 @ page2) totalLim)"
  proof (intro impI, elim conjE)
    assume d1: "distinct (map fst page1)" and d2: "distinct (map fst page2)"
      and ov: "card (fst ` set page1 \<inter> fst ` set page2) = 10"
      and room: "int (length page1 + length page2) - 10 \<le> totalLim"
    have len: "length (uniqueData_loop {} (page1 @ page2)) = length page1 + length page2 - 10"
      using two_pages_length [OF d1 d2] ov by simp
    have ge: "10 \<le> length page1 + length page2"
      using two_pages_length [OF d1 d2] ov by simp
    have "int (card (fst ` set (page1 @ page2))) \<le> totalLim"
      using len room ge by (simp add: uniqueData_loop_length)
    then have fin: "finalData (page1 @ page2) totalLim =
        sort_key fst (uniqueData_loop {} (page1 @ page2))"
      by (rule finalData_untrimmed)
    have "set page1 \<subseteq> set (uniqueData_loop {} (page1 @ page2))"
      by (simp add: first_page_kept [OF d1])
    with fin len show "length (finalData (page1 @ page2) totalLim) = length page1 + length page2 - 10
          \<and> set page1 \<subseteq> set (finalData (page1 @ page2) totalLim)"
      by simp
  qed
  from a b c d e show ?thesis by blast
qed

lemma page_a_eval: "page_a = [(0, 1, 1, 1, 1, 1), (60000, 1, 1, 1, 1, 1), (120000, 1, 1, 1, 1, 1),
   (180000, 1, 1, 1, 1, 1), (240000, 1, 1, 1, 1, 1), (300000, 1, 1, 1, 1, 1),
   (360000, 1, 1, 1, 1, 1), (420000, 1, 1, 1, 1, 1), (480000, 1, 1, 1, 1, 1),
   (540000, 1, 1, 1, 1, 1), (600000, 1, 1, 1, 1, 1)]"
  by (simp add: page_a_def upt_rec)

lemma page_b_eval: "page_b = [(60000, 2, 2, 2, 2, 2), (120000, 2, 2, 2, 2, 2),
   (180000, 2, 2, 2, 2, 2), (240000, 2, 2, 2, 2, 2), (300000, 2, 2, 2, 2, 2),
   (360000, 2, 2, 2, 2, 2), (420000, 2, 2, 2, 2, 2), (480000, 2, 2, 2, 2, 2),
   (540000, 2, 2, 2, 2, 2), (600000, 2, 2, 2, 2, 2), (660000, 2, 2, 2, 2, 2)]"
  by (simp add: page_b_def upt_rec)

theorem merge_sorted_unique_first_seen_witness:
  "length (finalData (page_a @ page_b) 100) = 12
   \<and> set page_a \<subseteq> set (finalData (page_a @ page_b) 100)
   \<and> sorted_wrt (<) (map fst (finalData (page_a @ page_b) 100))
   \<and> find (\<lambda>d. fst d = 60000) (finalData (page_a @ page_b) 100) = Some (60000, 1, 1, 1, 1, 1)"
proof -
  have d1: "distinct (map fst page_a)" by (simp add: page_a_eval)
  have d2: "distinct (map fst page_b)" by (simp add: page_b_eval)
  have ov: "card (fst ` set page_a \<inter> fst ` set page_b) = 10"
    by (simp add: page_a_eval page_b_eval)
  have room: "int (length page_a + length page_b) - 10 \<le> 100"
    by (simp add: page_a_eval page_b_eval)
  have l: "length page_a + length page_b - 10 = 12" by (simp add: page_a_eval page_b_eval)
  have f: "find (\<lambda>d. fst d = 60000) (finalData (page_a @ page_b) 100) = Some (60000, 1, 1, 1, 1, 1)"
    by (simp add: page_a_eval page_b_eval finalData_def js_slice0_def)
  from merge_sorted_unique_first_seen [of "page_a @ page_b" 100 page_a page_b] d1 d2 ov room l f
  show ?thesis by simp
qed

section \<open>Properties of the gap check\<close>

lemma missingCandles_loop_acc:
  "missingCandles_loop I acc xs = acc + missingCandles_loop I 0 xs"
proof (induction xs arbitrary: acc rule: induct_list012)
  case (3 a b rest)
  let ?m = "if fst b - fst a \<noteq> I then js_floor_div (fst b - fst a) I - 1 else 0"
  have "missingCandles_loop I acc (a # b # rest) = missingCandles_loop I (acc + ?m) (b # rest)"
    by (simp add: Let_def)
  also have "\<dots> = acc + ?m + missingCandles_loop I 0 (b # rest)"
    by (rule "3.IH"(2))
  finally have l: "missingCandles_loop I acc (a # b # rest) =
      acc + ?m + missingCandles_loop I 0 (b # rest)" .
  have "missingCandles_loop I 0 (a # b # rest) = missingCandles_loop I ?m (b # rest)"
    by (simp add: Let_def)
  also have "\<dots> = ?m + missingCandles_loop I 0 (b # rest)"
    by (rule "3.IH"(2))
  finally show ?case using l by simp
qed simp_all

lemma missingCandles_Cons2:
  "missingCandles I (a # b # rest) =
     (if fst b - fst a \<noteq> I then (fst b - fst a) div I - 1 else 0) + missingCandles I (b # rest)"
  unfolding missingCandles_def
  by (subst missingCandles_loop.simps, subst missingCandles_loop_acc)
     (simp add: Let_def js_floor_div_def)

lemma missingCandles_short [simp]:
  "missingCandles I [] = 0" "missingCandles I [a] = 0"
  by (simp_all add: missingCandles_def)

lemma missingCandles_pairs:
  "missingCandles I final =
     sum_list (map (\<lambda>(a, b). if b - a \<noteq> I then \<lfloor>real_of_int (b - a) / real_of_int I\<rfloor> - 1 else 0)
                   (zip (map fst final) (tl (map fst final))))"
proof (induction final rule: induct_list012)
  case (3 a b rest)
  then show ?case
    by (simp add: missingCandles_Cons2 floor_divide_of_int_eq del: of_int_diff)
qed simp_all

lemma missingCandles_on_grid:
  assumes I: "0 < I"
  shows "sorted_wrt (<) (map fst (a # rest)) \<Longrightarrow> \<forall>c \<in> set rest. I dvd (fst c - fst a) \<Longrightarrow>
         missingCandles I (a # rest) = (fst (last (a # rest)) - fst a) div I - int (length rest)"
proof (induction rest arbitrary: a)
  case Nil
  show ?case by simp
next
  case (Cons b rest)
  have dv: "I dvd (fst b - fst a)" using Cons.prems(2) by simp
  have srt: "sorted_wrt (<) (map fst (b # rest))" using Cons.prems(1) by simp
  have grid: "\<forall>c \<in> set rest. I dvd (fst c - fst b)"
  proof
    fix c assume "c \<in> set rest"
    with Cons.prems(2) have "I dvd (fst c - fst a)" by simp
    from dvd_diff [OF this dv] show "I dvd (fst c - fst b)" by simp
  qed
  have ih: "missingCandles I (b # rest) = (fst (last (b # rest)) - fst b) div I - int (length rest)"
    by (rule Cons.IH [OF srt grid])
  have step: "(if fst b - fst a \<noteq> I then (fst b - fst a) div I - 1 else 0) = (fst b - fst a) div I - 1"
    using I by simp
  have "(fst (last (b # rest)) - fst a) div I =
        ((fst b - fst a) + (fst (last (b # rest)) - fst b)) div I" by simp
  also have "\<dots> = (fst b - fst a) div I + (fst (last (b # rest)) - fst b) div I"
    by (rule div_plus_div_distrib_dvd_left [OF dv])
  finally have split: "(fst (last (b # rest)) - fst a) div I =
        (fst b - fst a) div I + (fst (last (b # rest)) - fst b) div I" .
  have "missingCandles I (a # b # rest) =
        ((fst b - fst a) div I - 1) + missingCandles I (b # rest)"
    by (simp only: missingCandles_Cons2 step)
  with ih split show ?case by simp
qed

lemma strict_sorted_bounds:
  fixes ts :: "int list"
  assumes "sorted_wrt (<) ts" "t \<in> set ts"
  shows "hd ts \<le> t \<and> t \<le> last ts"
  using assms
proof (induction ts)
  case Nil
  then show ?case by simp
next
  case (Cons x xs)
  show ?case
  proof (cases "xs = []")
    case True
    with Cons.prems show ?thesis by simp
  next
    case False
    then have lx: "last xs \<in> set xs" by simp
    from Cons.prems(1) have lt: "\<forall>y \<in> set xs. x < y" and s: "sorted_wrt (<) xs" by simp_all
    from lt lx have xl: "x < last xs" by blast
    show ?thesis
    proof (cases "t = x")
      case True
      with xl \<open>xs \<noteq> []\<close> show ?thesis by simp
    next
      case False
      with Cons.prems(2) have tx: "t \<in> set xs" by simp
      from Cons.IH [OF s tx] have "t \<le> last xs" by simp
      moreover from lt tx have "x < t" by blast
      ultimately show ?thesis using \<open>xs \<noteq> []\<close> by simp
    qed
  qed
qed

lemma grid_points:
  fixes t0 :: int
  assumes I: "0 < I" and le: "t0 \<le> t1" and dv: "I dvd (t1 - t0)"
  shows "{t. t0 \<le> t \<and> t \<le> t1 \<and> I dvd (t - t0)} = (\<lambda>i. t0 + i * I) ` {0..(t1 - t0) div I}"
proof (intro set_eqI iffI)
  fix t assume "t \<in> {t. t0 \<le> t \<and> t \<le> t1 \<and> I dvd (t - t0)}"
  then have b: "t0 \<le> t" "t \<le> t1" and d: "I dvd (t - t0)" by simp_all
  from d obtain q where q: "t - t0 = I * q" by (auto simp: dvd_def)
  have "0 \<le> (t - t0) div I" using b I by (simp add: pos_imp_zdiv_nonneg_iff)
  moreover have "(t - t0) div I \<le> (t1 - t0) div I" using b I by (intro zdiv_mono1) simp_all
  moreover have "t = t0 + ((t - t0) div I) * I" using d by simp
  ultimately show "t \<in> (\<lambda>i. t0 + i * I) ` {0..(t1 - t0) div I}" by (intro image_eqI) simp_all
next
  fix t assume "t \<in> (\<lambda>i. t0 + i * I) ` {0..(t1 - t0) div I}"
  then obtain i where i: "0 \<le> i" "i \<le> (t1 - t0) div I" and t: "t = t0 + i * I" by auto
  have "i * I \<le> ((t1 - t0) div I) * I" using i I by (intro mult_right_mono) simp_all
  also have "\<dots> = t1 - t0" using dv by simp
  finally have "t \<le> t1" using t by simp
  moreover have "t0 \<le> t" using t i I by simp
  ultimately show "t \<in> {t. t0 \<le> t \<and> t \<le> t1 \<and> I dvd (t - t0)}" using t by simp
qed

lemma grid_missing_card:
  fixes ts :: "int list"
  assumes I: "0 < I" and ne: "ts \<noteq> []" and srt: "sorted_wrt (<) ts"
    and grid: "\<forall>t \<in> set ts. I dvd (t - hd ts)"
  shows "int (card {t. hd ts < t \<and> t < last ts \<and> I dvd (t - hd ts) \<and> t \<notin> set ts})
         = (last ts - hd ts) div I + 1 - int (length ts)"
proof -
  let ?t0 = "hd ts" and ?t1 = "last ts"
  let ?G = "{t. ?t0 \<le> t \<and> t \<le> ?t1 \<and> I dvd (t - ?t0)}"
  let ?n = "(?t1 - ?t0) div I"
  have hd_in: "?t0 \<in> set ts" and last_in: "?t1 \<in> set ts" using ne by simp_all
  have le: "?t0 \<le> ?t1" using strict_sorted_bounds [OF srt last_in] by simp
  have dv: "I dvd (?t1 - ?t0)" using grid last_in by blast
  have G: "?G = (\<lambda>i. ?t0 + i * I) ` {0..?n}" by (rule grid_points [OF I le dv])
  have inj: "inj_on (\<lambda>i. ?t0 + i * I) {0..?n}" using I by (auto simp: inj_on_def)
  have n0: "0 \<le> ?n" using le I by (simp add: pos_imp_zdiv_nonneg_iff)
  have cardG: "card ?G = nat (?n + 1)" unfolding G by (simp add: card_image [OF inj])
  have finG: "finite ?G" unfolding G by simp
  have sub: "set ts \<subseteq> ?G" using strict_sorted_bounds [OF srt] grid by auto
  have eq: "{t. ?t0 < t \<and> t < ?t1 \<and> I dvd (t - ?t0) \<and> t \<notin> set ts} = ?G - set ts"
    using hd_in last_in by (auto simp: order_less_le)
  have dist: "distinct ts" using srt by (simp add: strict_sorted_iff)
  have "card (?G - set ts) = card ?G - card (set ts)"
    by (rule card_Diff_subset) (simp_all add: sub)
  also have "\<dots> = nat (?n + 1) - length ts" by (simp add: cardG distinct_card [OF dist])
  finally have c: "card (?G - set ts) = nat (?n + 1) - length ts" .
  have "length ts = card (set ts)" by (simp add: distinct_card [OF dist])
  also have "\<dots> \<le> card ?G" by (rule card_mono [OF finG sub])
  finally have "length ts \<le> nat (?n + 1)" by (simp add: cardG)
  with c n0 show ?thesis unfolding eq by simp
qed

lemma aggregate_result:
  "aggregate w allData totalLim I =
     (Inr (finalData allData totalLim),
      if 0 < missingCandles I (finalData allData totalLim)
      then emit (Warn_missing (missingCandles I (finalData allData totalLim))) w else w)"
  by (simp add: aggregate_def Let_def)

text \<open>
  C8. The counter is the sum, over the adjacent pairs whose distance differs from the
  interval, of \<open>\<lfloor>delta / interval\<rfloor> - 1\<close>. On a strictly ascending sequence of grid
  points it equals the number of grid points missing between the first and the last
  candle. The counter never turns the result into an error: the merged data are returned
  and a positive counter only adds a warning.
\<close>

theorem gap_counter_exact:
  "(I \<noteq> 0 \<longrightarrow> missingCandles I final =
      sum_list (map (\<lambda>(a, b). if b - a \<noteq> I then \<lfloor>real_of_int (b - a) / real_of_int I\<rfloor> - 1 else 0)
                    (zip (map fst final) (tl (map fst final)))))
   \<and> (0 < I \<and> final \<noteq> [] \<and> sorted_wrt (<) (map fst final)
        \<and> (\<forall>c \<in> set final. I dvd (fst c - fst (hd final))) \<longrightarrow>
        missingCandles I final =
          int (card {t. fst (hd final) < t \<and> t < fst (last final)
                        \<and> I dvd (t - fst (hd final)) \<and> t \<notin> fst ` set final}))
   \<and> fst (aggregate w allData totalLim I) = Inr (finalData allData totalLim)
   \<and> trace (snd (aggregate w allData totalLim I)) =
        (if 0 < missingCandles I (finalData allData totalLim)
         then trace w @ [Warn_missing (missingCandles I (finalData allData totalLim))]
         else trace w)"
proof -
  have a: "I \<noteq> 0 \<longrightarrow> missingCandles I final =
      sum_list (map (\<lambda>(a, b). if b - a \<noteq> I then \<lfloor>real_of_int (b - a) / real_of_int I\<rfloor> - 1 else 0)
                    (zip (map fst final) (tl (map fst final))))"
    using missingCandles_pairs by blast
  have b: "0 < I \<and> final \<noteq> [] \<and> sorted_wrt (<) (map fst final)
        \<and> (\<forall>c \<in> set final. I dvd (fst c - fst (hd final))) \<longrightarrow>
        missingCandles I final =
          int (card {t. fst (hd final) < t \<and> t < fst (last final)
                        \<and> I dvd (t - fst (hd final)) \<and> t \<notin> fst ` set final})"
  proof (intro impI, elim conjE)
    assume I: "0 < I" and ne: "final \<noteq> []" and srt: "sorted_wrt (<) (map fst final)"
      and grid: "\<forall>c \<in> set final. I dvd (fst c - fst (hd final))"
    from ne obtain a rest where final: "final = a # rest" by (cases final) auto
    have m: "missingCandles I final = (fst (last final) - fst (hd final)) div I - int (length rest)"
      unfolding final using srt grid
      by (simp only: list.sel) (rule missingCandles_on_grid [OF I], simp_all add: final)
    let ?ts = "map fst final"
    have ne': "?ts \<noteq> []" using ne by simp
    have hd': "hd ?ts = fst (hd final)" using ne by (simp add: hd_map)
    have last': "last ?ts = fst (last final)" using ne by (simp add: last_map)
    have grid': "\<forall>t \<in> set ?ts. I dvd (t - hd ?ts)" using grid by (simp add: hd')
    from grid_missing_card [OF I ne' srt grid']
    have "int (card {t. fst (hd final) < t \<and> t < fst (last final)
                        \<and> I dvd (t - fst (hd final)) \<and> t \<notin> fst ` set final})
          = (fst (last final) - fst (hd final)) div I + 1 - int (length final)"
      by (simp add: hd' last')
    with m show "missingCandles I final =
          int (card {t. fst (hd final) < t \<and> t < fst (last final)
                        \<and> I dvd (t - fst (hd final)) \<and> t \<notin> fst ` set final})"
      by (simp add: final)
  qed
  have c: "fst (aggregate w allData totalLim I) = Inr (finalData allData totalLim)"
    by (simp add: aggregate_result)
  have d: "trace (snd (aggregate w allData totalLim I)) =
        (if 0 < missingCandles I (finalData allData totalLim)
         then trace w @ [Warn_missing (missingCandles I (finalData allData totalLim))]
         else trace w)"
    by (simp add: aggregate_result emit_def)
  from a b c d show ?thesis by blast
qed

theorem gap_counter_exact_witness:
  "missingCandles 60000 gap_pages = 2
   \<and> int (card {t. 0 < t \<and> t < 300000 \<and> 60000 dvd t \<and> t \<notin> fst ` set gap_pages}) = 2
   \<and> fst (aggregate quiet_world gap_pages 6 60000) = Inr gap_pages
   \<and> trace (snd (aggregate quiet_world gap_pages 6 60000)) = [Warn_missing 2]
   \<and> map_option fst (fetchOHLCVData gap_world ''BTC/USDT'' ''1m'' 0 (Some 360000)) =
        Some (Inr gap_pages)"
proof -
  have m: "missingCandles 60000 gap_pages = 2"
    by (simp add: gap_pages_def candle_at_def missingCandles_def js_floor_div_def)
  have f: "finalData gap_pages 6 = gap_pages"
    by (simp add: gap_pages_def candle_at_def finalData_def js_slice0_def)
  have hyp: "(0::int) < 60000 \<and> gap_pages \<noteq> [] \<and> sorted_wrt (<) (map fst gap_pages)
        \<and> (\<forall>c \<in> set gap_pages. 60000 dvd (fst c - fst (hd gap_pages)))"
    by (simp add: gap_pages_def candle_at_def)
  have ends: "fst (hd gap_pages) = 0" "fst (last gap_pages) = 300000"
    by (simp_all add: gap_pages_def candle_at_def)
  have t: "trace quiet_world = []" by (simp add: quiet_world_def)
  have run: "map_option fst (fetchOHLCVData gap_world ''BTC/USDT'' ''1m'' 0 (Some 360000)) =
        Some (Inr gap_pages)"
    by code_simp
  from gap_counter_exact [of 60000 gap_pages quiet_world gap_pages 6] hyp m f ends t run
  show ?thesis by simp
qed

section \<open>Properties of the paged fetcher\<close>

declare fetch_chunk.simps [simp del]

lemma rate_limit_bound: "maxRetries_fetch = 3"
  by (simp add: maxRetries_fetch_def)

lemma fetch_chunk_exhausted:
  "3 \<le> rc \<Longrightarrow> fetch_chunk w r rc = (Inl RateLimitExhausted, w)"
  by (subst fetch_chunk.simps) (simp add: rate_limit_bound)

lemma fetch_chunk_success:
  "rc < 3 \<Longrightarrow> exchange w (calls w) r = Candles cs \<Longrightarrow>
   fetch_chunk w r rc = (Inr cs, w\<lparr>calls := calls w + 1, trace := trace w @ [Fetch r]\<rparr>)"
  by (subst fetch_chunk.simps) (simp add: rate_limit_bound fetchOHLCV_def emit_def)

lemma fetch_chunk_other_error:
  "rc < 3 \<Longrightarrow> exchange w (calls w) r = Fails e \<Longrightarrow> \<not> is_rate_limit e \<Longrightarrow>
   fetch_chunk w r rc = (Inl (Thrown e), w\<lparr>calls := calls w + 1, trace := trace w @ [Fetch r]\<rparr>)"
  by (subst fetch_chunk.simps) (simp add: rate_limit_bound fetchOHLCV_def emit_def)

lemma fetch_chunk_rate_limited:
  "rc < 3 \<Longrightarrow> exchange w (calls w) r = Fails e \<Longrightarrow> is_rate_limit e \<Longrightarrow>
   fetch_chunk w r rc =
     fetch_chunk (w\<lparr>calls := calls w + 1, trace := trace w @ [Fetch r, Sleep 60000]\<rparr>) r (Suc rc)"
  by (subst fetch_chunk.simps) (simp add: rate_limit_bound fetchOHLCV_def emit_def sleep_def)

lemma fetch_chunk_backoff:
  "rc + k \<le> 3 \<Longrightarrow>
   \<forall>j<k. \<exists>e. exchange w (calls w + j) r = Fails e \<and> is_rate_limit e \<Longrightarrow>
   fetch_chunk w r rc =
     fetch_chunk (w\<lparr>calls := calls w + k,
                    trace := trace w @ concat (replicate k [Fetch r, Sleep 60000])\<rparr>) r (rc + k)"
proof (induction k arbitrary: w rc)
  case 0
  show ?case by simp
next
  case (Suc k)
  let ?w1 = "w\<lparr>calls := calls w + 1, trace := trace w @ [Fetch r, Sleep 60000]\<rparr>"
  from Suc.prems(2) obtain e where e: "exchange w (calls w) r = Fails e" "is_rate_limit e"
    by force
  have rc: "rc < 3" using Suc.prems(1) by simp
  have first: "fetch_chunk w r rc = fetch_chunk ?w1 r (Suc rc)"
    by (rule fetch_chunk_rate_limited [OF rc e])
  have later: "\<forall>j<k. \<exists>e. exchange ?w1 (calls ?w1 + j) r = Fails e \<and> is_rate_limit e"
  proof (intro allI impI)
    fix j assume "j < k"
    then have "Suc j < Suc k" by simp
    with Suc.prems(2) obtain e' where "exchange w (calls w + Suc j) r = Fails e'" "is_rate_limit e'"
      by blast
    then show "\<exists>e. exchange ?w1 (calls ?w1 + j) r = Fails e \<and> is_rate_limit e" by simp
  qed
  have bound: "Suc rc + k \<le> 3" using Suc.prems(1) by simp
  have "fetch_chunk ?w1 r (Suc rc) =
     fetch_chunk (?w1\<lparr>calls := calls ?w1 + k,
                    trace := trace ?w1 @ concat (replicate k [Fetch r, Sleep 60000])\<rparr>) r (Suc rc + k)"
    by (rule Suc.IH [OF bound later])
  with first show ?case by simp
qed

lemma fetch_requests_loop_failure:
  "fetch_requests_loop w pre allData = (Inr acc, w1) \<Longrightarrow> fetch_chunk w1 r 0 = (Inl e, w2) \<Longrightarrow>
   fetch_requests_loop w (pre @ r # rest) allData = (Inl e, w2)"
proof (induction pre arbitrary: w allData)
  case Nil
  then show ?case by simp
next
  case (Cons p pre)
  obtain res w' where c: "fetch_chunk w p 0 = (res, w')" by (cases "fetch_chunk w p 0")
  show ?case
  proof (cases res)
    case (Inl err)
    with c Cons.prems(1) show ?thesis by simp
  next
    case (Inr chunk)
    with c Cons.prems(1)
    have "fetch_requests_loop (sleep 100 w') pre (allData @ chunk) = (Inr acc, w1)" by simp
    from Cons.IH [OF this Cons.prems(2)] c Inr show ?thesis by simp
  qed
qed

lemma fetchOHLCVData_pages:
  assumes probe: "fetchOHLCV w \<lparr>market = mkt, timeframe = tf, since = since0, limit = LIMIT\<rparr>
                   = (Candles (c0 # c1 # cs), w1)"
    and endT: "(case toDate of None \<Rightarrow> Date_now w1 | Some t \<Rightarrow> (t, w1)) = (endT, w2)"
    and plan: "plan_requests mkt tf since0 endT (fst c0) (int (length (c0 # c1 # cs)))
                 (fst c1 - fst c0) = Some p"
  shows "fetchOHLCVData w mkt tf since0 toDate =
     (case fetch_requests_loop w2 (requests p) [] of
        (Inl e, w3) \<Rightarrow> Some (Inl e, emit (Error_logged e) w3)
      | (Inr allData, w3) \<Rightarrow> Some (aggregate w3 allData (totalLimit p) (fst c1 - fst c0)))"
proof -
  obtain x w3 where l: "fetch_requests_loop w2 (requests p) [] = (x, w3)"
    by (cases "fetch_requests_loop w2 (requests p) []")
  show ?thesis
    unfolding fetchOHLCVData_def probe
    using endT plan l
    by (cases x) (simp_all add: Let_def rethrow_logged_def)
qed

lemma fetch_chunk_three_limits:
  assumes h: "\<forall>j<3. \<exists>e. exchange w (calls w + j) r = Fails e \<and> is_rate_limit e"
  shows "fetch_chunk w r 0 =
        (Inl RateLimitExhausted,
         w\<lparr>calls := calls w + 3,
           trace := trace w @ concat (replicate 3 [Fetch r, Sleep 60000])\<rparr>)"
proof -
  have "fetch_chunk w r 0 =
      fetch_chunk (w\<lparr>calls := calls w + 3,
                     trace := trace w @ concat (replicate 3 [Fetch r, Sleep 60000])\<rparr>) r 3"
    using fetch_chunk_backoff [of 0 3 w r] h by simp
  then show ?thesis by (simp only: fetch_chunk_exhausted [OF order_refl])
qed

lemma fetch_chunk_limits_then_error:
  assumes k: "k < 3"
    and h: "\<forall>j<k. \<exists>e. exchange w (calls w + j) r = Fails e \<and> is_rate_limit e"
    and ans: "exchange w (calls w + k) r = Fails e" and nr: "\<not> is_rate_limit e"
  shows "fetch_chunk w r 0 =
        (Inl (Thrown e),
         w\<lparr>calls := calls w + k + 1,
           trace := trace w @ concat (replicate k [Fetch r, Sleep 60000]) @ [Fetch r]\<rparr>)"
proof -
  let ?slept = "w\<lparr>calls := calls w + k,
                  trace := trace w @ concat (replicate k [Fetch r, Sleep 60000])\<rparr>"
  have "fetch_chunk w r 0 = fetch_chunk ?slept r k"
    using fetch_chunk_backoff [of 0 k w r] h k by simp
  moreover have "exchange ?slept (calls ?slept) r = Fails e" using ans by simp
  ultimately show ?thesis
    using fetch_chunk_other_error [OF k _ nr, of ?slept r] by simp
qed

lemma fetch_chunk_limits_then_candles:
  assumes k: "k < 3"
    and h: "\<forall>j<k. \<exists>e. exchange w (calls w + j) r = Fails e \<and> is_rate_limit e"
    and ans: "exchange w (calls w + k) r = Candles chunk"
  shows "fetch_chunk w r 0 =
        (Inr chunk,
         w\<lparr>calls := calls w + k + 1,
           trace := trace w @ concat (replicate k [Fetch r, Sleep 60000]) @ [Fetch r]\<rparr>)"
proof -
  let ?slept = "w\<lparr>calls := calls w + k,
                  trace := trace w @ concat (replicate k [Fetch r, Sleep 60000])\<rparr>"
  have "fetch_chunk w r 0 = fetch_chunk ?slept r k"
    using fetch_chunk_backoff [of 0 k w r] h k by simp
  moreover have "exchange ?slept (calls ?slept) r = Candles chunk" using ans by simp
  ultimately show ?thesis
    using fetch_chunk_success [OF k, of ?slept r chunk] by simp
qed

lemma fetch_requests_loop_append:
  "fetch_requests_loop w pre allData = (Inr acc, w1) \<Longrightarrow>
   fetch_requests_loop w (pre @ rest) allData = fetch_requests_loop w1 rest acc"
proof (induction pre arbitrary: w allData)
  case Nil
  then show ?case by simp
next
  case (Cons p pre)
  obtain res w' where c: "fetch_chunk w p 0 = (res, w')" by (cases "fetch_chunk w p 0")
  show ?case
  proof (cases res)
    case (Inl err)
    with c Cons.prems show ?thesis by simp
  next
    case (Inr chunk)
    with c Cons.prems
    have "fetch_requests_loop (sleep 100 w') pre (allData @ chunk) = (Inr acc, w1)" by simp
    from Cons.IH [OF this] c Inr show ?thesis by simp
  qed
qed

text \<open>
  C6. For one planned request, starting with no retries used: while the exchange answers
  with a rate-limit error the request is repeated after a sleep of 60000 ms; three such
  answers end the request with \<open>RateLimitExhausted\<close>; any other error ends it at once, the
  error being passed on unchanged; a success after fewer than three rate-limit answers
  yields exactly the candles of that attempt, which the page loop appends to the data. A
  failed request fails the page loop; after requests that succeeded the loop goes on with
  the remaining ones. For the whole fetch, with or without an end date
  (the pipeline gives none, and the end is the time read from the clock after the probe):
  the fetch fails with the error of the page loop, which it logs; when the page loop
  succeeds the fetch returns the merge of the data of the pages; three rate-limit answers
  to a planned request whose predecessors succeeded fail the fetch with
  \<open>RateLimitExhausted\<close>, and another error fails it with that error.
\<close>

theorem rate_limit_retry_policy:
  "((\<forall>j<3. \<exists>e. exchange w (calls w + j) r = Fails e \<and> is_rate_limit e) \<longrightarrow>
      fetch_chunk w r 0 =
        (Inl RateLimitExhausted,
         w\<lparr>calls := calls w + 3,
           trace := trace w @ concat (replicate 3 [Fetch r, Sleep 60000])\<rparr>))
   \<and> (k < 3 \<and> (\<forall>j<k. \<exists>e. exchange w (calls w + j) r = Fails e \<and> is_rate_limit e)
        \<and> exchange w (calls w + k) r = Fails e \<and> \<not> is_rate_limit e \<longrightarrow>
      fetch_chunk w r 0 =
        (Inl (Thrown e),
         w\<lparr>calls := calls w + k + 1,
           trace := trace w @ concat (replicate k [Fetch r, Sleep 60000]) @ [Fetch r]\<rparr>))
   \<and> (k < 3 \<and> (\<forall>j<k. \<exists>e. exchange w (calls w + j) r = Fails e \<and> is_rate_limit e)
        \<and> exchange w (calls w + k) r = Candles chunk \<longrightarrow>
      fetch_chunk w r 0 =
        (Inr chunk,
         w\<lparr>calls := calls w + k + 1,
           trace := trace w @ concat (replicate k [Fetch r, Sleep 60000]) @ [Fetch r]\<rparr>)
      \<and> fetch_requests_loop w [r] allData =
        (Inr (allData @ chunk),
         w\<lparr>calls := calls w + k + 1,
           trace := trace w @ concat (replicate k [Fetch r, Sleep 60000]) @ [Fetch r, Sleep 100]\<rparr>))
   \<and> (fetch_requests_loop w pre allData = (Inr acc, w1) \<and> fetch_chunk w1 r 0 = (Inl err, w2) \<longrightarrow>
      fetch_requests_loop w (pre @ r # rest) allData = (Inl err, w2))
   \<and> (fetch_requests_loop w pre allData = (Inr acc, w1) \<longrightarrow>
      fetch_requests_loop w (pre @ rest) allData = fetch_requests_loop w1 rest acc)
   \<and> (fetchOHLCV w0 \<lparr>market = mkt, timeframe = tf, since = since0, limit = LIMIT\<rparr>
          = (Candles (c0 # c1 # cs), wp)
        \<and> (case toDate of None \<Rightarrow> Date_now wp | Some t \<Rightarrow> (t, wp)) = (endT, ws)
        \<and> plan_requests mkt tf since0 endT (fst c0) (int (length (c0 # c1 # cs)))
             (fst c1 - fst c0) = Some p \<longrightarrow>
      (\<forall>x w3. fetch_requests_loop ws (requests p) [] = (Inl x, w3) \<longrightarrow>
         fetchOHLCVData w0 mkt tf since0 toDate = Some (Inl x, emit (Error_logged x) w3))
      \<and> (\<forall>got w3. fetch_requests_loop ws (requests p) [] = (Inr got, w3) \<longrightarrow>
         fetchOHLCVData w0 mkt tf since0 toDate =
           Some (aggregate w3 got (totalLimit p) (fst c1 - fst c0)))
      \<and> (\<forall>before q after got w3.
            requests p = before @ q # after
            \<and> fetch_requests_loop ws before [] = (Inr got, w3)
            \<and> (\<forall>j<3. \<exists>e. exchange w3 (calls w3 + j) q = Fails e \<and> is_rate_limit e) \<longrightarrow>
         fetchOHLCVData w0 mkt tf since0 toDate =
           Some (Inl RateLimitExhausted,
                 emit (Error_logged RateLimitExhausted)
                   (w3\<lparr>calls := calls w3 + 3,
                       trace := trace w3 @ concat (replicate 3 [Fetch q, Sleep 60000])\<rparr>)))
      \<and> (\<forall>before q after got w3 n e.
            requests p = before @ q # after
            \<and> fetch_requests_loop ws before [] = (Inr got, w3)
            \<and> n < 3 \<and> (\<forall>j<n. \<exists>e. exchange w3 (calls w3 + j) q = Fails e \<and> is_rate_limit e)
            \<and> exchange w3 (calls w3 + n) q = Fails e \<and> \<not> is_rate_limit e \<longrightarrow>
         fetchOHLCVData w0 mkt tf since0 toDate =
           Some (Inl (Thrown e),
                 emit (Error_logged (Thrown e))
                   (w3\<lparr>calls := calls w3 + n + 1,
                       trace := trace w3 @ concat (replicate n [Fetch q, Sleep 60000])
                                  @ [Fetch q]\<rparr>))))"
proof -
  have a: "(\<forall>j<3. \<exists>e. exchange w (calls w + j) r = Fails e \<and> is_rate_limit e) \<longrightarrow>
      fetch_chunk w r 0 =
        (Inl RateLimitExhausted,
         w\<lparr>calls := calls w + 3,
           trace := trace w @ concat (replicate 3 [Fetch r, Sleep 60000])\<rparr>)"
    using fetch_chunk_three_limits by blast
  have b: "k < 3 \<and> (\<forall>j<k. \<exists>e. exchange w (calls w + j) r = Fails e \<and> is_rate_limit e)
        \<and> exchange w (calls w + k) r = Fails e \<and> \<not> is_rate_limit e \<longrightarrow>
      fetch_chunk w r 0 =
        (Inl (Thrown e),
         w\<lparr>calls := calls w + k + 1,
           trace := trace w @ concat (replicate k [Fetch r, Sleep 60000]) @ [Fetch r]\<rparr>)"
    using fetch_chunk_limits_then_error by blast
  have c: "k < 3 \<and> (\<forall>j<k. \<exists>e. exchange w (calls w + j) r = Fails e \<and> is_rate_limit e)
        \<and> exchange w (calls w + k) r = Candles chunk \<longrightarrow>
      fetch_chunk w r 0 =
        (Inr chunk,
         w\<lparr>calls := calls w + k + 1,
           trace := trace w @ concat (replicate k [Fetch r, Sleep 60000]) @ [Fetch r]\<rparr>)
      \<and> fetch_requests_loop w [r] allData =
        (Inr (allData @ chunk),
         w\<lparr>calls := calls w + k + 1,
           trace := trace w @ concat (replicate k [Fetch r, Sleep 60000]) @ [Fetch r, Sleep 100]\<rparr>)"
  proof (intro impI, elim conjE)
    assume k: "k < 3" and h: "\<forall>j<k. \<exists>e. exchange w (calls w + j) r = Fails e \<and> is_rate_limit e"
      and ans: "exchange w (calls w + k) r = Candles chunk"
    note one = fetch_chunk_limits_then_candles [OF k h ans]
    then show "fetch_chunk w r 0 =
        (Inr chunk,
         w\<lparr>calls := calls w + k + 1,
           trace := trace w @ concat (replicate k [Fetch r, Sleep 60000]) @ [Fetch r]\<rparr>)
      \<and> fetch_requests_loop w [r] allData =
        (Inr (allData @ chunk),
         w\<lparr>calls := calls w + k + 1,
           trace := trace w @ concat (replicate k [Fetch r, Sleep 60000]) @ [Fetch r, Sleep 100]\<rparr>)"
      by (simp add: sleep_def emit_def)
  qed
  have d: "fetch_requests_loop w pre allData = (Inr acc, w1) \<and> fetch_chunk w1 r 0 = (Inl err, w2) \<longrightarrow>
      fetch_requests_loop w (pre @ r # rest) allData = (Inl err, w2)"
    using fetch_requests_loop_failure by blast
  have d': "fetch_requests_loop w pre allData = (Inr acc, w1) \<longrightarrow>
      fetch_requests_loop w (pre @ rest) allData = fetch_requests_loop w1 rest acc"
    using fetch_requests_loop_append by blast
  have e: "fetchOHLCV w0 \<lparr>market = mkt, timeframe = tf, since = since0, limit = LIMIT\<rparr>
          = (Candles (c0 # c1 # cs), wp)
        \<and> (case toDate of None \<Rightarrow> Date_now wp | Some t \<Rightarrow> (t, wp)) = (endT, ws)
        \<and> plan_requests mkt tf since0 endT (fst c0) (int (length (c0 # c1 # cs)))
             (fst c1 - fst c0) = Some p \<longrightarrow>
      (\<forall>x w3. fetch_requests_loop ws (requests p) [] = (Inl x, w3) \<longrightarrow>
         fetchOHLCVData w0 mkt tf since0 toDate = Some (Inl x, emit (Error_logged x) w3))
      \<and> (\<forall>got w3. fetch_requests_loop ws (requests p) [] = (Inr got, w3) \<longrightarrow>
         fetchOHLCVData w0 mkt tf since0 toDate =
           Some (aggregate w3 got (totalLimit p) (fst c1 - fst c0)))
      \<and> (\<forall>before q after got w3.
            requests p = before @ q # after
            \<and> fetch_requests_loop ws before [] = (Inr got, w3)
            \<and> (\<forall>j<3. \<exists>e. exchange w3 (calls w3 + j) q = Fails e \<and> is_rate_limit e) \<longrightarrow>
         fetchOHLCVData w0 mkt tf since0 toDate =
           Some (Inl RateLimitExhausted,
                 emit (Error_logged RateLimitExhausted)
                   (w3\<lparr>calls := calls w3 + 3,
                       trace := trace w3 @ concat (replicate 3 [Fetch q, Sleep 60000])\<rparr>)))
      \<and> (\<forall>before q after got w3 n e.
            requests p = before @ q # after
            \<and> fetch_requests_loop ws before [] = (Inr got, w3)
            \<and> n < 3 \<and> (\<forall>j<n. \<exists>e. exchange w3 (calls w3 + j) q = Fails e \<and> is_rate_limit e)
            \<and> exchange w3 (calls w3 + n) q = Fails e \<and> \<not> is_rate_limit e \<longrightarrow>
         fetchOHLCVData w0 mkt tf since0 toDate =
           Some (Inl (Thrown e),
                 emit (Error_logged (Thrown e))
                   (w3\<lparr>calls := calls w3 + n + 1,
                       trace := trace w3 @ concat (replicate n [Fetch q, Sleep 60000])
                                  @ [Fetch q]\<rparr>)))"
  proof (intro impI, elim conjE)
    assume probe: "fetchOHLCV w0 \<lparr>market = mkt, timeframe = tf, since = since0, limit = LIMIT\<rparr>
          = (Candles (c0 # c1 # cs), wp)"
      and endT: "(case toDate of None \<Rightarrow> Date_now wp | Some t \<Rightarrow> (t, wp)) = (endT, ws)"
      and plan: "plan_requests mkt tf since0 endT (fst c0) (int (length (c0 # c1 # cs)))
             (fst c1 - fst c0) = Some p"
    note run = fetchOHLCVData_pages [OF probe endT plan]
    have fails: "fetchOHLCVData w0 mkt tf since0 toDate = Some (Inl x, emit (Error_logged x) w3)"
      if "fetch_requests_loop ws (requests p) [] = (Inl x, w3)" for x w3
      using run that by simp
    have succeeds: "fetchOHLCVData w0 mkt tf since0 toDate =
           Some (aggregate w3 got (totalLimit p) (fst c1 - fst c0))"
      if "fetch_requests_loop ws (requests p) [] = (Inr got, w3)" for got w3
      using run that by simp
    have limited: "fetchOHLCVData w0 mkt tf since0 toDate =
           Some (Inl RateLimitExhausted,
                 emit (Error_logged RateLimitExhausted)
                   (w3\<lparr>calls := calls w3 + 3,
                       trace := trace w3 @ concat (replicate 3 [Fetch q, Sleep 60000])\<rparr>))"
      if rq: "requests p = before @ q # after"
        and pre: "fetch_requests_loop ws before [] = (Inr got, w3)"
        and h: "\<forall>j<3. \<exists>e. exchange w3 (calls w3 + j) q = Fails e \<and> is_rate_limit e"
      for before q after got w3
    proof -
      from fetch_requests_loop_failure [OF pre fetch_chunk_three_limits [OF h], of after]
      show ?thesis unfolding rq [symmetric] by (rule fails)
    qed
    have broken: "fetchOHLCVData w0 mkt tf since0 toDate =
           Some (Inl (Thrown e),
                 emit (Error_logged (Thrown e))
                   (w3\<lparr>calls := calls w3 + n + 1,
                       trace := trace w3 @ concat (replicate n [Fetch q, Sleep 60000])
                                  @ [Fetch q]\<rparr>))"
      if rq: "requests p = before @ q # after"
        and pre: "fetch_requests_loop ws before [] = (Inr got, w3)"
        and n: "n < 3"
        and h: "\<forall>j<n. \<exists>e. exchange w3 (calls w3 + j) q = Fails e \<and> is_rate_limit e"
        and ans: "exchange w3 (calls w3 + n) q = Fails e" and nr: "\<not> is_rate_limit e"
      for before q after got w3 n e
    proof -
      from fetch_requests_loop_failure
        [OF pre fetch_chunk_limits_then_error [OF n h ans nr], of after]
      show ?thesis unfolding rq [symmetric] by (rule fails)
    qed
    show "(\<forall>x w3. fetch_requests_loop ws (requests p) [] = (Inl x, w3) \<longrightarrow>
         fetchOHLCVData w0 mkt tf since0 toDate = Some (Inl x, emit (Error_logged x) w3))
      \<and> (\<forall>got w3. fetch_requests_loop ws (requests p) [] = (Inr got, w3) \<longrightarrow>
         fetchOHLCVData w0 mkt tf since0 toDate =
           Some (aggregate w3 got (totalLimit p) (fst c1 - fst c0)))
      \<and> (\<forall>before q after got w3.
            requests p = before @ q # after
            \<and> fetch_requests_loop ws before [] = (Inr got, w3)
            \<and> (\<forall>j<3. \<exists>e. exchange w3 (calls w3 + j) q = Fails e \<and> is_rate_limit e) \<longrightarrow>
         fetchOHLCVData w0 mkt tf since0 toDate =
           Some (Inl RateLimitExhausted,
                 emit (Error_logged RateLimitExhausted)
                   (w3\<lparr>calls := calls w3 + 3,
                       trace := trace w3 @ concat (replicate 3 [Fetch q, Sleep 60000])\<rparr>)))
      \<and> (\<forall>before q after got w3 n e.
            requests p = before @ q # after
            \<and> fetch_requests_loop ws before [] = (Inr got, w3)
            \<and> n < 3 \<and> (\<forall>j<n. \<exists>e. exchange w3 (calls w3 + j) q = Fails e \<and> is_rate_limit e)
            \<and> exchange w3 (calls w3 + n) q = Fails e \<and> \<not> is_rate_limit e \<longrightarrow>
         fetchOHLCVData w0 mkt tf since0 toDate =
           Some (Inl (Thrown e),
                 emit (Error_logged (Thrown e))
                   (w3\<lparr>calls := calls w3 + n + 1,
                       trace := trace w3 @ concat (replicate n [Fetch q, Sleep 60000])
                                  @ [Fetch q]\<rparr>)))"
      apply (intro conjI allI impI)
         apply (erule fails)
        apply (erule succeeds)
       apply (elim conjE, rule limited, assumption+)
      apply (elim conjE, rule broken, assumption+)
      done
  qed
  from a b c d d' e show ?thesis by (intro conjI)
qed

lemma rate_limit_texts:
  "is_rate_limit ''RateLimitExceeded: 429 Too Many Requests''"
  "is_rate_limit ''DDoSProtection: rate limit exceeded''"
  "\<not> is_rate_limit ''NetworkError: socket hang up''"
  by (simp_all add: is_rate_limit_def)

lemma recent_plan:
  "plan_requests ''BTC/USDT'' ''1m'' 1700000480000 1700000600000
     (fst (candle_at 1700000480000 :: nat RawOHLCVData))
     (int (length [candle_at 1700000480000 :: nat RawOHLCVData, candle_at 1700000540000]))
     (fst (candle_at 1700000540000 :: nat RawOHLCVData)
        - fst (candle_at 1700000480000 :: nat RawOHLCVData)) =
   Some \<lparr>totalLimit = 2, numRequests = 1, requests = [recent_request]\<rparr>"
  by (simp add: plan_requests_def js_ceil_div_def prepare_requests_def candle_at_def
        recent_request_def)

lemma recent_aggregate:
  "aggregate w recent_candles 2 60000 = (Inr recent_candles, w)"
  by (simp add: aggregate_def finalData_def js_slice0_def missingCandles_def
        recent_candles_def candle_at_def Let_def)

theorem rate_limit_retry_policy_witness:
  "fetch_chunk throttled_twice_world page_request 0 =
     (Inr [candle_at 0, candle_at 60000],
      throttled_twice_world\<lparr>calls := 3,
        trace := [Fetch page_request, Sleep 60000, Fetch page_request, Sleep 60000,
                  Fetch page_request]\<rparr>)
   \<and> fetch_requests_loop throttled_twice_world [page_request] [] =
     (Inr [candle_at 0, candle_at 60000],
      throttled_twice_world\<lparr>calls := 3,
        trace := [Fetch page_request, Sleep 60000, Fetch page_request, Sleep 60000,
                  Fetch page_request, Sleep 100]\<rparr>)
   \<and> fetch_chunk throttled_world page_request 0 =
     (Inl RateLimitExhausted,
      throttled_world\<lparr>calls := 3,
        trace := [Fetch page_request, Sleep 60000, Fetch page_request, Sleep 60000,
                  Fetch page_request, Sleep 60000]\<rparr>)
   \<and> fetch_chunk broken_world page_request 0 =
     (Inl (Thrown ''NetworkError: socket hang up''),
      broken_world\<lparr>calls := 2,
        trace := [Fetch page_request, Sleep 60000, Fetch page_request]\<rparr>)
   \<and> fetchOHLCVData throttled_run_world ''BTC/USDT'' ''1m'' 1700000480000 None =
     Some (Inl RateLimitExhausted,
           throttled_run_world\<lparr>calls := 4, reads := 1,
             trace := [Fetch recent_request, Fetch recent_request, Sleep 60000,
                       Fetch recent_request, Sleep 60000, Fetch recent_request, Sleep 60000,
                       Error_logged RateLimitExhausted]\<rparr>)
   \<and> fetchOHLCVData recovering_world ''BTC/USDT'' ''1m'' 1700000480000 None =
     Some (Inr recent_candles,
           recovering_world\<lparr>calls := 4, reads := 1,
             trace := [Fetch recent_request, Fetch recent_request, Sleep 60000,
                       Fetch recent_request, Sleep 60000, Fetch recent_request, Sleep 100]\<rparr>)"
proof -
  let ?F = "Fetch page_request" and ?S = "Sleep 60000" and ?G = "Fetch recent_request"
  let ?c0 = "candle_at 1700000480000 :: nat RawOHLCVData"
  let ?c1 = "candle_at 1700000540000 :: nat RawOHLCVData"
  let ?plan = "\<lparr>totalLimit = 2, numRequests = 1, requests = [recent_request]\<rparr>"
  have r3: "concat (replicate 3 [ev, ev']) = [ev, ev', ev, ev', ev, ev']"
    "concat (replicate 2 [ev, ev']) = [ev, ev', ev, ev']"
    "concat (replicate 1 [ev, ev']) = [ev, ev']" for ev ev' :: event
    by (simp_all add: numeral_3_eq_3 numeral_2_eq_2)
  have D: "fetchOHLCVData throttled_run_world ''BTC/USDT'' ''1m'' 1700000480000 None =
     Some (Inl RateLimitExhausted,
           throttled_run_world\<lparr>calls := 4, reads := 1,
             trace := [?G, ?G, ?S, ?G, ?S, ?G, ?S, Error_logged RateLimitExhausted]\<rparr>)"
  proof -
    let ?w = throttled_run_world
    let ?wp = "?w\<lparr>calls := 1, trace := [?G]\<rparr>"
    let ?ws = "?w\<lparr>calls := 1, reads := 1, trace := [?G]\<rparr>"
    have probe: "fetchOHLCV ?w \<lparr>market = ''BTC/USDT'', timeframe = ''1m'',
                     since = 1700000480000, limit = LIMIT\<rparr> = (Candles (?c0 # ?c1 # []), ?wp)"
      by (simp add: fetchOHLCV_def emit_def throttled_run_world_def quiet_world_def
            recent_candles_def recent_request_def)
    have clock: "(case None of None \<Rightarrow> Date_now ?wp | Some t \<Rightarrow> (t, ?wp)) = (1700000600000, ?ws)"
      by (simp add: Date_now_def throttled_run_world_def quiet_world_def)
    have rq: "requests ?plan = [] @ recent_request # []" by simp
    have pre: "fetch_requests_loop ?ws [] [] = (Inr [], ?ws)" by simp
    have lim: "\<forall>j<3. \<exists>e. exchange ?ws (calls ?ws + j) recent_request = Fails e \<and> is_rate_limit e"
      by (simp add: throttled_run_world_def quiet_world_def rate_limit_texts)
    note pages = rate_limit_retry_policy [where ?w0.0 = ?w and mkt = "''BTC/USDT''"
           and tf = "''1m''" and ?since0.0 = 1700000480000 and ?c0.0 = ?c0 and ?c1.0 = ?c1
           and cs = "[]" and toDate = None and wp = ?wp and endT = 1700000600000 and ws = ?ws
           and p = ?plan,
           THEN conjunct2, THEN conjunct2, THEN conjunct2, THEN conjunct2, THEN conjunct2,
           THEN mp,
           OF conjI [OF probe conjI [OF clock recent_plan]]]
    from pages [THEN conjunct2, THEN conjunct2, THEN conjunct1, rule_format,
           of "[]" recent_request "[]" "[]" ?ws, OF conjI [OF rq conjI [OF pre lim]]]
    have "fetchOHLCVData ?w ''BTC/USDT'' ''1m'' 1700000480000 None =
           Some (Inl RateLimitExhausted,
                 emit (Error_logged RateLimitExhausted)
                   (?ws\<lparr>calls := calls ?ws + 3,
                       trace := trace ?ws @ concat (replicate 3 [?G, ?S])\<rparr>))" .
    then show ?thesis by (simp add: emit_def r3)
  qed
  have E: "fetchOHLCVData recovering_world ''BTC/USDT'' ''1m'' 1700000480000 None =
     Some (Inr recent_candles,
           recovering_world\<lparr>calls := 4, reads := 1,
             trace := [?G, ?G, ?S, ?G, ?S, ?G, Sleep 100]\<rparr>)"
  proof -
    let ?w = recovering_world
    let ?wp = "?w\<lparr>calls := 1, trace := [?G]\<rparr>"
    let ?ws = "?w\<lparr>calls := 1, reads := 1, trace := [?G]\<rparr>"
    let ?w3 = "?ws\<lparr>calls := calls ?ws + 2 + 1,
                   trace := trace ?ws @ concat (replicate 2 [?G, ?S]) @ [?G, Sleep 100]\<rparr>"
    have probe: "fetchOHLCV ?w \<lparr>market = ''BTC/USDT'', timeframe = ''1m'',
                     since = 1700000480000, limit = LIMIT\<rparr> = (Candles (?c0 # ?c1 # []), ?wp)"
      by (simp add: fetchOHLCV_def emit_def recovering_world_def quiet_world_def
            recent_candles_def recent_request_def)
    have clock: "(case None of None \<Rightarrow> Date_now ?wp | Some t \<Rightarrow> (t, ?wp)) = (1700000600000, ?ws)"
      by (simp add: Date_now_def recovering_world_def quiet_world_def)
    have two: "(2::nat) < 3" by simp
    have lim: "\<forall>j<2. \<exists>e. exchange ?ws (calls ?ws + j) recent_request = Fails e \<and> is_rate_limit e"
      by (simp add: recovering_world_def quiet_world_def rate_limit_texts less_Suc_eq
            numeral_2_eq_2)
    have ok: "exchange ?ws (calls ?ws + 2) recent_request = Candles recent_candles"
      by (simp add: recovering_world_def quiet_world_def)
    from rate_limit_retry_policy [where w = ?ws and r = recent_request and k = 2
           and chunk = recent_candles and allData = "[]",
           THEN conjunct2, THEN conjunct2, THEN conjunct1, THEN mp,
           OF conjI [OF two conjI [OF lim ok]]]
    have "fetch_requests_loop ?ws [recent_request] [] = (Inr ([] @ recent_candles), ?w3)"
      by (rule conjunct2)
    then have loop: "fetch_requests_loop ?ws (requests ?plan) [] = (Inr recent_candles, ?w3)"
      by simp
    note pages = rate_limit_retry_policy [where ?w0.0 = ?w and mkt = "''BTC/USDT''"
           and tf = "''1m''" and ?since0.0 = 1700000480000 and ?c0.0 = ?c0 and ?c1.0 = ?c1
           and cs = "[]" and toDate = None and wp = ?wp and endT = 1700000600000 and ws = ?ws
           and p = ?plan,
           THEN conjunct2, THEN conjunct2, THEN conjunct2, THEN conjunct2, THEN conjunct2,
           THEN mp,
           OF conjI [OF probe conjI [OF clock recent_plan]]]
    from pages [THEN conjunct2, THEN conjunct1, rule_format, OF loop]
    have "fetchOHLCVData ?w ''BTC/USDT'' ''1m'' 1700000480000 None =
           Some (aggregate ?w3 recent_candles 2 60000)"
      by (simp add: candle_at_def)
    then show ?thesis by (simp add: recent_aggregate r3)
  qed
  have t2: "\<forall>j<2. \<exists>e. exchange throttled_twice_world (calls throttled_twice_world + j) page_request
              = Fails e \<and> is_rate_limit e"
    by (simp add: throttled_twice_world_def quiet_world_def rate_limit_texts)
  have ok: "exchange throttled_twice_world (calls throttled_twice_world + 2) page_request
              = Candles [candle_at 0, candle_at 60000]"
    by (simp add: throttled_twice_world_def quiet_world_def)
  have i2: "calls throttled_twice_world = 0" "trace throttled_twice_world = []"
    by (simp_all add: throttled_twice_world_def quiet_world_def)
  have t3: "\<forall>j<3. \<exists>e. exchange throttled_world (calls throttled_world + j) page_request
              = Fails e \<and> is_rate_limit e"
    by (simp add: throttled_world_def quiet_world_def rate_limit_texts)
  have i3: "calls throttled_world = 0" "trace throttled_world = []"
    by (simp_all add: throttled_world_def quiet_world_def)
  have t1: "\<forall>j<1. \<exists>e. exchange broken_world (calls broken_world + j) page_request
              = Fails e \<and> is_rate_limit e"
    by (simp add: broken_world_def quiet_world_def rate_limit_texts)
  have bad: "exchange broken_world (calls broken_world + 1) page_request
              = Fails ''NetworkError: socket hang up''"
    by (simp add: broken_world_def quiet_world_def)
  have i1: "calls broken_world = 0" "trace broken_world = []"
    by (simp_all add: broken_world_def quiet_world_def)
  have WA: "throttled_twice_world\<lparr>calls := calls throttled_twice_world + 2 + 1,
        trace := trace throttled_twice_world @ concat (replicate 2 [?F, ?S]) @ [?F]\<rparr>
      = throttled_twice_world\<lparr>calls := 3, trace := [?F, ?S, ?F, ?S, ?F]\<rparr>"
    "throttled_twice_world\<lparr>calls := calls throttled_twice_world + 2 + 1,
        trace := trace throttled_twice_world @ concat (replicate 2 [?F, ?S]) @ [?F, Sleep 100]\<rparr>
      = throttled_twice_world\<lparr>calls := 3, trace := [?F, ?S, ?F, ?S, ?F, Sleep 100]\<rparr>"
    by (simp_all add: i2 r3)
  have WB: "throttled_world\<lparr>calls := calls throttled_world + 3,
        trace := trace throttled_world @ concat (replicate 3 [?F, ?S])\<rparr>
      = throttled_world\<lparr>calls := 3, trace := [?F, ?S, ?F, ?S, ?F, ?S]\<rparr>"
    by (simp add: i3 r3)
  have WC: "broken_world\<lparr>calls := calls broken_world + 1 + 1,
        trace := trace broken_world @ concat (replicate 1 [?F, ?S]) @ [?F]\<rparr>
      = broken_world\<lparr>calls := 2, trace := [?F, ?S, ?F]\<rparr>"
    by (simp add: i1)
  have two: "(2::nat) < 3" and one: "(1::nat) < 3" by simp_all
  from rate_limit_retry_policy [where w = throttled_twice_world and r = page_request and k = 2
         and chunk = "[candle_at 0, candle_at 60000]" and allData = "[]",
         THEN conjunct2, THEN conjunct2, THEN conjunct1, THEN mp,
         OF conjI [OF two conjI [OF t2 ok]]]
  have "fetch_chunk throttled_twice_world page_request 0 =
     (Inr [candle_at 0, candle_at 60000],
      throttled_twice_world\<lparr>calls := calls throttled_twice_world + 2 + 1,
        trace := trace throttled_twice_world @ concat (replicate 2 [?F, ?S]) @ [?F]\<rparr>)
   \<and> fetch_requests_loop throttled_twice_world [page_request] [] =
     (Inr ([] @ [candle_at 0, candle_at 60000]),
      throttled_twice_world\<lparr>calls := calls throttled_twice_world + 2 + 1,
        trace := trace throttled_twice_world @ concat (replicate 2 [?F, ?S]) @ [?F, Sleep 100]\<rparr>)" .
  then have A: "fetch_chunk throttled_twice_world page_request 0 =
     (Inr [candle_at 0, candle_at 60000],
      throttled_twice_world\<lparr>calls := 3, trace := [?F, ?S, ?F, ?S, ?F]\<rparr>)
   \<and> fetch_requests_loop throttled_twice_world [page_request] [] =
     (Inr [candle_at 0, candle_at 60000],
      throttled_twice_world\<lparr>calls := 3, trace := [?F, ?S, ?F, ?S, ?F, Sleep 100]\<rparr>)"
    by (simp only: WA append_Nil)
  from rate_limit_retry_policy [where w = throttled_world and r = page_request,
         THEN conjunct1, THEN mp, OF t3]
  have "fetch_chunk throttled_world page_request 0 =
     (Inl RateLimitExhausted,
      throttled_world\<lparr>calls := calls throttled_world + 3,
        trace := trace throttled_world @ concat (replicate 3 [?F, ?S])\<rparr>)" .
  then have B: "fetch_chunk throttled_world page_request 0 =
     (Inl RateLimitExhausted,
      throttled_world\<lparr>calls := 3, trace := [?F, ?S, ?F, ?S, ?F, ?S]\<rparr>)"
    by (simp only: WB)
  from rate_limit_retry_policy [where w = broken_world and r = page_request and k = 1
         and e = "''NetworkError: socket hang up''",
         THEN conjunct2, THEN conjunct1, THEN mp,
         OF conjI [OF one conjI [OF t1 conjI [OF bad rate_limit_texts(3)]]]]
  have "fetch_chunk broken_world page_request 0 =
     (Inl (Thrown ''NetworkError: socket hang up''),
      broken_world\<lparr>calls := calls broken_world + 1 + 1,
        trace := trace broken_world @ concat (replicate 1 [?F, ?S]) @ [?F]\<rparr>)" .
  then have C: "fetch_chunk broken_world page_request 0 =
     (Inl (Thrown ''NetworkError: socket hang up''),
      broken_world\<lparr>calls := 2, trace := [?F, ?S, ?F]\<rparr>)"
    by (simp only: WC)
  from A B C D E show ?thesis by (intro conjI) (simp_all only:)
qed

section \<open>Properties of the upsert statement\<close>

lemma upsert_row_conflict:
  "find (\<lambda>r. row_key r = row_key row) t = Some old \<Longrightarrow>
   find (\<lambda>r. row_key r = row_key row) (upsert_row t row) =
     Some (old\<lparr>open := open row, high := high row, low := low row,
                close := close row, volume := volume row\<rparr>)"
  by (induction t) (auto simp: row_key_def)

lemma upsert_row_others:
  "k \<noteq> row_key row \<Longrightarrow>
   find (\<lambda>r. row_key r = k) (upsert_row t row) = find (\<lambda>r. row_key r = k) t"
  by (induction t) (auto simp: row_key_def)

lemma upsert_row_length:
  "find (\<lambda>r. row_key r = row_key row) t = Some old \<Longrightarrow> length (upsert_row t row) = length t"
  by (induction t) (auto split: if_splits)

lemma coerce_row_fields:
  assumes "coerce_row item = Inr row"
  shows "symbol row = symbol item" "open_time row = open_time item"
    "close_time row = close_time item" "row_key row = row_key item"
    "numeric_20_8 (open item) = Inr (open row)" "numeric_20_8 (high item) = Inr (high row)"
    "numeric_20_8 (low item) = Inr (low row)" "numeric_20_8 (close item) = Inr (close row)"
    "numeric_20_8 (volume item) = Inr (volume row)" "length (symbol item) \<le> 50"
  using assms
  by (auto simp: coerce_row_def row_key_def split: if_splits sum.splits)

lemma insert_single:
  "insert_on_conflict t [item] =
     (case coerce_row item of Inl e \<Rightarrow> Inl e | Inr row \<Rightarrow> Inr (upsert_row t row))"
  by (simp add: insert_on_conflict_def split: sum.splits)

lemma coerce_rows_keys:
  "coerce_rows data = Inr rows \<Longrightarrow> map row_key rows = map row_key data"
proof (induction data arbitrary: rows)
  case Nil
  then show ?case by simp
next
  case (Cons item rest)
  from Cons.prems obtain r rs where r: "coerce_row item = Inr r"
      and rs: "coerce_rows rest = Inr rs" and rows: "rows = r # rs"
    by (auto split: sum.splits)
  from Cons.IH [OF rs] coerce_row_fields(4) [OF r] rows show ?case by simp
qed

lemma coerce_rows_mem:
  "coerce_rows data = Inr rows \<Longrightarrow> item \<in> set data \<Longrightarrow>
   \<exists>row \<in> set rows. coerce_row item = Inr row"
proof (induction data arbitrary: rows)
  case Nil
  then show ?case by simp
next
  case (Cons x rest)
  from Cons.prems(1) obtain r rs where r: "coerce_row x = Inr r"
      and rs: "coerce_rows rest = Inr rs" and rows: "rows = r # rs"
    by (auto split: sum.splits)
  show ?case
  proof (cases "item = x")
    case True
    with r rows show ?thesis by simp
  next
    case False
    with Cons.prems(2) have "item \<in> set rest" by simp
    from Cons.IH [OF rs this] rows show ?thesis by auto
  qed
qed


lemma foldl_upsert_others:
  "k \<notin> row_key ` set rows \<Longrightarrow>
   find (\<lambda>r. row_key r = k) (foldl upsert_row t rows) = find (\<lambda>r. row_key r = k) t"
proof (induction rows arbitrary: t)
  case Nil
  show ?case by simp
next
  case (Cons x xs)
  from Cons.prems have kx: "k \<noteq> row_key x" and kxs: "k \<notin> row_key ` set xs" by auto
  from Cons.IH [OF kxs, of "upsert_row t x"] upsert_row_others [OF kx, of t]
  show ?case by simp
qed

lemma upsert_row_fresh:
  "find (\<lambda>r. row_key r = row_key row) t = None \<Longrightarrow>
   find (\<lambda>r. row_key r = row_key row) (upsert_row t row) = Some row"
  by (induction t) (auto split: if_splits)

lemma foldl_upsert_conflict:
  assumes d: "distinct (map row_key rows)" and mem: "row \<in> set rows"
    and old: "find (\<lambda>r. row_key r = row_key row) t = Some old"
  shows "find (\<lambda>r. row_key r = row_key row) (foldl upsert_row t rows) =
     Some (old\<lparr>open := open row, high := high row, low := low row,
                close := close row, volume := volume row\<rparr>)"
  using d mem
proof (induction rows rule: rev_induct)
  case Nil
  then show ?case by simp
next
  case (snoc x xs)
  from snoc.prems(1) have dxs: "distinct (map row_key xs)"
    and fresh: "row_key x \<notin> row_key ` set xs" by auto
  show ?case
  proof (cases "row \<in> set xs")
    case True
    with fresh have "row_key row \<noteq> row_key x" by (metis imageI)
    from upsert_row_others [OF this, of "foldl upsert_row t xs"] snoc.IH [OF dxs True]
    show ?thesis by simp
  next
    case False
    with snoc.prems(2) have x: "row = x" by simp
    from foldl_upsert_others [OF fresh, of t] old x
    have "find (\<lambda>r. row_key r = row_key row) (foldl upsert_row t xs) = Some old" by simp
    from upsert_row_conflict [OF this] x show ?thesis by simp
  qed
qed

lemma foldl_upsert_present:
  assumes d: "distinct (map row_key rows)" and mem: "row \<in> set rows"
  shows "\<exists>r. find (\<lambda>r. row_key r = row_key row) (foldl upsert_row t rows) = Some r
           \<and> open r = open row \<and> high r = high row \<and> low r = low row
           \<and> close r = close row \<and> volume r = volume row"
proof (cases "find (\<lambda>r. row_key r = row_key row) t")
  case (Some old)
  from foldl_upsert_conflict [OF d mem Some] show ?thesis by simp
next
  case None
  from d mem show ?thesis
  proof (induction rows rule: rev_induct)
    case Nil
    then show ?case by simp
  next
    case (snoc x xs)
    from snoc.prems(1) have dxs: "distinct (map row_key xs)"
      and fresh: "row_key x \<notin> row_key ` set xs" by auto
    show ?case
    proof (cases "row \<in> set xs")
      case True
      with fresh have "row_key row \<noteq> row_key x" by (metis imageI)
      from upsert_row_others [OF this, of "foldl upsert_row t xs"] snoc.IH [OF dxs True]
      show ?thesis by simp
    next
      case False
      with snoc.prems(2) have x: "row = x" by simp
      from foldl_upsert_others [OF fresh, of t] None x
      have "find (\<lambda>r. row_key r = row_key row) (foldl upsert_row t xs) = None" by simp
      from upsert_row_fresh [OF this] x show ?thesis by simp
    qed
  qed
qed

lemma insert_on_conflict_accepts:
  "insert_on_conflict t data = Inr t' \<Longrightarrow>
   \<exists>rows. coerce_rows data = Inr rows \<and> distinct (map row_key rows)
          \<and> t' = foldl upsert_row t rows"
  by (auto simp: insert_on_conflict_def split: sum.splits if_splits)

section \<open>Properties of the re-entrancy flag\<close>

text \<open>
  C9 (the code departs from the claim). Three ticks in a row, none of the started work
  having finished: the first starts a cycle, the second skips the work but its
  \<^verbatim>\<open>finally\<close> block clears the flag, and the third starts a second cycle while the first
  is still in progress.
\<close>

theorem reentrancy_flag_reset_by_skipped_tick:
  "cron_run [Tick] = \<lparr>syncing = True, in_progress = [0], fired = 1\<rparr>
   \<and> cron_run [Tick, Tick] = \<lparr>syncing = False, in_progress = [0], fired = 2\<rparr>
   \<and> cron_run [Tick, Tick, Tick] = \<lparr>syncing = True, in_progress = [0, 2], fired = 3\<rparr>"
  by (simp add: cron_run_def cron_init_def onTick_enter_def)

section \<open>Properties of the batched writer\<close>

declare persist_batches_loop.simps [simp del]

lemma upsert_row_keys: "row_key ` set (upsert_row t row) = insert (row_key row) (row_key ` set t)"
  by (induction t) (auto simp: row_key_def)

lemma foldl_upsert_keys:
  "row_key ` set (foldl upsert_row t rows) = row_key ` set t \<union> row_key ` set rows"
  by (induction rows arbitrary: t) (auto simp: upsert_row_keys)

lemma run_query_keys:
  assumes "run_query tbs q = Inr (res, tbs')"
  shows "keys_of tbs name \<subseteq> keys_of tbs' name"
proof (cases q)
  case (CreateTable n)
  with assms show ?thesis by (auto simp: run_query_def keys_of_def split: if_splits)
next
  case (SelectLatest n syms)
  with assms show ?thesis by (auto simp: run_query_def split: option.splits)
next
  case (InsertRows n data)
  show ?thesis
  proof (cases "tbs n")
    case None
    with InsertRows assms show ?thesis by (simp add: run_query_def)
  next
    case (Some t)
    show ?thesis
    proof (cases "insert_on_conflict t data")
      case (Inl e)
      with Some InsertRows assms show ?thesis by (simp add: run_query_def)
    next
      case (Inr t')
      from insert_on_conflict_accepts [OF Inr] obtain rows
        where "t' = foldl upsert_row t rows" by blast
      then have sub: "row_key ` set t \<subseteq> row_key ` set t'" by (simp add: foldl_upsert_keys)
      from Some Inr InsertRows assms have tbs': "tbs' = tbs(n \<mapsto> t')"
        by (simp add: run_query_def)
      show ?thesis
      proof (cases "name = n")
        case True
        with sub Some tbs' show ?thesis by (simp add: keys_of_def)
      next
        case False
        with tbs' show ?thesis by (simp add: keys_of_def)
      qed
    qed
  qed
qed

lemma grows_refl [simp]: "grows w w"
  by (simp add: grows_def)

lemma grows_trans: "grows a b \<Longrightarrow> grows b c \<Longrightarrow> grows a c"
  unfolding grows_def by (meson subset_trans prefix_order.trans)

lemma grows_emit [simp]: "grows w (emit ev w)"
  by (auto simp: grows_def emit_def)

lemma grows_sleep [simp]: "grows w (sleep ms w)"
  by (simp add: sleep_def)

lemma grows_pool_query: "grows w (snd (pool_query w q))"
proof (cases "db_fault w (queries w)")
  case (Some e)
  then show ?thesis by (auto simp: pool_query_def Let_def grows_def emit_def)
next
  case None
  show ?thesis
  proof (cases "run_query (tables w) q")
    case (Inl e)
    with None show ?thesis by (auto simp: pool_query_def Let_def grows_def emit_def)
  next
    case (Inr p)
    obtain res tbs where p: "p = (res, tbs)" by (cases p)
    from run_query_keys [OF Inr [unfolded p]] None Inr p
    show ?thesis by (auto simp: pool_query_def Let_def grows_def emit_def)
  qed
qed

lemma grows_query_unit: "grows w (snd (query_unit q w))"
  using grows_pool_query [of w q]
  by (cases "pool_query w q") (auto simp: query_unit_def split: sum.splits)

lemma grows_retry_attempts:
  assumes fn: "\<And>w. grows w (snd (fn w))"
  shows "grows w (snd (retry_attempts fn n d e0 w))"
proof (induction n arbitrary: w e0)
  case 0
  show ?case by simp
next
  case (Suc n)
  obtain r w1 where f: "fn w = (r, w1)" by (cases "fn w")
  have g1: "grows w w1" using fn [of w] f by simp
  show ?case
  proof (cases r)
    case (Inr v)
    with f g1 show ?thesis by simp
  next
    case (Inl e)
    let ?w2 = "if n = 0 then w1 else sleep d w1"
    have "grows w1 ?w2" by simp
    with g1 have "grows w ?w2" by (rule grows_trans)
    from grows_trans [OF this Suc.IH [of ?w2 e]] f Inl show ?thesis by simp
  qed
qed

lemma grows_retry: "(\<And>w. grows w (snd (fn w))) \<Longrightarrow> grows w (snd (retry fn n d w))"
  unfolding retry_def by (rule grows_retry_attempts)

lemma grows_rethrow_logged: "grows w (snd r) \<Longrightarrow> grows w (snd (rethrow_logged r))"
proof -
  assume g: "grows w (snd r)"
  obtain x w' where r: "r = (x, w')" by (cases r)
  show ?thesis
  proof (cases x)
    case (Inl e)
    with r g grows_trans [OF _ grows_emit] show ?thesis by (simp add: rethrow_logged_def)
  next
    case (Inr v)
    with r g show ?thesis by (simp add: rethrow_logged_def)
  qed
qed

lemma persistToPostgres_cases:
  assumes "data \<noteq> []"
  obtains
    (thrown) "persistToPostgres w data ex mt =
                rethrow_logged (Inl (Thrown ''RangeError: Invalid time value''), w)"
  | (query) "persistToPostgres w data ex mt =
                rethrow_logged
                  (retry (query_unit (InsertRows (getTableName ex mt) data))
                     (retry_default_attempts w) (retry_default_delay w) w)"
  using assms
  by (cases "find (\<lambda>item. \<not> (time_value_ok (open_time item)
                              \<and> time_value_ok (close_time item))) data")
     (simp_all add: persistToPostgres_def)

lemma grows_persistToPostgres: "grows w (snd (persistToPostgres w data ex mt))"
proof (cases "data = []")
  case True
  then show ?thesis by (simp add: persistToPostgres_def)
next
  case False
  then show ?thesis
  proof (cases rule: persistToPostgres_cases [of data w ex mt])
    case thrown
    then show ?thesis by (simp add: rethrow_logged_def)
  next
    case query
    then show ?thesis by (simp add: grows_rethrow_logged grows_retry grows_query_unit)
  qed
qed

lemma grows_persist_batch: "grows w (persist_batch w data ex mt mr d bs i)"
proof -
  let ?fn = "\<lambda>w. persistToPostgres w (deduplicateOHLCVData (take bs (drop i data))) ex mt"
  obtain r w' where r: "retry ?fn mr d w = (r, w')" by (cases "retry ?fn mr d w")
  have "grows w (snd (retry ?fn mr d w))" by (rule grows_retry) (rule grows_persistToPostgres)
  with r have g: "grows w w'" by simp
  show ?thesis
    using r grows_trans [OF g grows_emit]
    by (cases r) (simp_all add: persist_batch_def Let_def)
qed

lemma persist_batches_loop_step:
  "0 < bs \<Longrightarrow> i < length data \<Longrightarrow>
   persist_batches_loop w data ex mt mr d bs i =
     persist_batches_loop (persist_batch w data ex mt mr d bs i) data ex mt mr d bs (i + bs)"
  by (subst persist_batches_loop.simps) simp

lemma persist_batches_loop_done:
  "length data \<le> i \<Longrightarrow> persist_batches_loop w data ex mt mr d bs i = w"
  by (subst persist_batches_loop.simps) simp

lemma grows_persist_batches_loop:
  "grows w (persist_batches_loop w data ex mt mr d bs i)"
proof (induction w data ex mt mr d bs i rule: persist_batches_loop.induct)
  case (1 w data ex mt mr d bs i)
  show ?case
  proof (cases "bs = 0 \<or> length data \<le> i")
    case True
    then show ?thesis by (subst persist_batches_loop.simps) simp
  next
    case False
    from grows_trans [OF grows_persist_batch "1.IH" [OF False]] False
    show ?thesis by (subst persist_batches_loop.simps) simp
  qed
qed

lemma query_unit_failure: "query_unit q w = (Inl e, w') \<Longrightarrow> tables w' = tables w"
  by (auto simp: query_unit_def pool_query_def Let_def emit_def
           split: option.splits sum.splits prod.splits)

lemma retry_attempts_failure:
  assumes fn: "\<And>w e w'. fn w = (Inl e, w') \<Longrightarrow> tables w' = tables w"
  shows "retry_attempts fn n d e0 w = (Inl e, w') \<Longrightarrow> tables w' = tables w"
proof (induction n arbitrary: w e0)
  case 0
  then show ?case by simp
next
  case (Suc n)
  obtain r w1 where f: "fn w = (r, w1)" by (cases "fn w")
  show ?case
  proof (cases r)
    case (Inr v)
    with f Suc.prems show ?thesis by simp
  next
    case (Inl e1)
    with f have t1: "tables w1 = tables w" by (simp add: fn)
    let ?w2 = "if n = 0 then w1 else sleep d w1"
    have t2: "tables ?w2 = tables w1" by (simp add: sleep_def emit_def)
    from Suc.prems f Inl have "retry_attempts fn n d e1 ?w2 = (Inl e, w')" by simp
    from Suc.IH [OF this] t1 t2 show ?thesis by simp
  qed
qed

lemma retry_attempts_success:
  "retry_attempts fn n d e0 w = (Inr v, w') \<Longrightarrow> \<exists>w0. fn w0 = (Inr v, w')"
proof (induction n arbitrary: w e0)
  case 0
  then show ?case by simp
next
  case (Suc n)
  obtain r w1 where f: "fn w = (r, w1)" by (cases "fn w")
  show ?case
  proof (cases r)
    case (Inr v1)
    with f Suc.prems show ?thesis by auto
  next
    case (Inl e1)
    with f Suc.prems
    have "retry_attempts fn n d e1 (if n = 0 then w1 else sleep d w1) = (Inr v, w')" by simp
    then show ?thesis by (rule Suc.IH)
  qed
qed

lemma persistToPostgres_failure:
  assumes a: "persistToPostgres w data ex mt = (Inl e, w')"
  shows "tables w' = tables w"
proof -
  let ?q = "query_unit (InsertRows (getTableName ex mt) data)"
  from a have ne: "data \<noteq> []" by (cases "data = []") (simp_all add: persistToPostgres_def)
  then show ?thesis
  proof (cases rule: persistToPostgres_cases [of data w ex mt])
    case thrown
    with a show ?thesis by (auto simp: rethrow_logged_def emit_def)
  next
    case query
    obtain r w1 where r: "retry ?q (retry_default_attempts w) (retry_default_delay w) w = (r, w1)"
      by (cases "retry ?q (retry_default_attempts w) (retry_default_delay w) w")
    from a query r have rl: "rethrow_logged (r, w1) = (Inl e, w')" by simp
    show ?thesis
    proof (cases r)
      case (Inr v)
      with rl show ?thesis by (simp add: rethrow_logged_def)
    next
      case (Inl e1)
      with rl have w': "w' = emit (Error_logged e1) w1" by (auto simp: rethrow_logged_def)
      from r Inl have ra: "retry_attempts ?q (retry_default_attempts w) (retry_default_delay w)
          (Thrown ''retry: no attempt allowed'') w = (Inl e1, w1)"
        by (simp add: retry_def)
      have "tables w1 = tables w"
        by (rule retry_attempts_failure [OF query_unit_failure ra])
      with w' show ?thesis by (simp add: emit_def)
    qed
  qed
qed

lemma pool_query_success:
  assumes "pool_query w q = (Inr res, w')"
  shows "run_query (tables w) q = Inr (res, tables w')"
proof (cases "db_fault w (queries w)")
  case (Some e)
  with assms show ?thesis by (simp add: pool_query_def Let_def)
next
  case None
  show ?thesis
  proof (cases "run_query (tables w) q")
    case (Inl e)
    with None assms show ?thesis by (simp add: pool_query_def Let_def)
  next
    case (Inr p)
    obtain res1 tbs where p: "p = (res1, tbs)" by (cases p)
    from None Inr p assms show ?thesis by (auto simp: pool_query_def Let_def emit_def)
  qed
qed

lemma new_events_append:
  "grows a b \<Longrightarrow> grows b c \<Longrightarrow> new_events a c = new_events a b @ new_events b c"
  by (auto simp: grows_def new_events_def prefix_def)

lemma new_events_emit: "new_events w (emit ev w) = [ev]"
  by (simp add: new_events_def emit_def)

lemma tables_emit [simp]: "tables (emit ev w) = tables w"
  by (simp add: emit_def)

lemma row_stored_key: "row_stored t item \<Longrightarrow> row_key item \<in> row_key ` set t"
proof -
  assume "row_stored t item"
  then obtain r where "find (\<lambda>r. row_key r = row_key item) t = Some r"
    by (auto simp: row_stored_def split: option.splits)
  then have "r \<in> set t \<and> row_key r = row_key item"
    by (auto simp: find_Some_iff)
  then show ?thesis by (metis imageI)
qed

lemma deduplicate_nonempty: "xs \<noteq> [] \<Longrightarrow> deduplicateOHLCVData xs \<noteq> []"
  by (cases xs) (simp_all add: deduplicateOHLCVData_def Let_def)

lemma batch_nonempty:
  "0 < bs \<Longrightarrow> i < length data \<Longrightarrow> deduplicateOHLCVData (take bs (drop i data)) \<noteq> []"
  by (rule deduplicate_nonempty) simp

lemma persist_batch_failed:
  assumes r: "retry (\<lambda>w. persistToPostgres w (deduplicateOHLCVData (take bs (drop i data))) ex mt)
                mr d w = (Inl e, w')"
  shows "persist_batch w data ex mt mr d bs i = emit (Batch_failed i e) w' \<and> tables w' = tables w"
proof -
  let ?fn = "\<lambda>w. persistToPostgres w (deduplicateOHLCVData (take bs (drop i data))) ex mt"
  from r have ra: "retry_attempts ?fn mr d (Thrown ''retry: no attempt allowed'') w = (Inl e, w')"
    by (simp add: retry_def)
  have "tables w' = tables w"
  proof (rule retry_attempts_failure [where fn = ?fn, OF _ ra])
    fix u :: "'a world" and x and u' :: "'a world"
    assume "persistToPostgres u (deduplicateOHLCVData (take bs (drop i data))) ex mt = (Inl x, u')"
    then show "tables u' = tables u" by (rule persistToPostgres_failure)
  qed
  with r show ?thesis by (simp add: persist_batch_def Let_def)
qed

lemma grows_retry_persist:
  "grows w (snd (retry (\<lambda>w. persistToPostgres w batch ex mt) mr d w))"
  by (rule grows_retry) (rule grows_persistToPostgres)

lemma insert_on_conflict_stores:
  assumes ins: "insert_on_conflict t data = Inr t'" and mem: "item \<in> set data"
  shows "row_stored t' item"
proof -
  from insert_on_conflict_accepts [OF ins] obtain rows
    where co: "coerce_rows data = Inr rows" and d: "distinct (map row_key rows)"
      and t': "t' = foldl upsert_row t rows" by blast
  from coerce_rows_mem [OF co mem] obtain row
    where row: "row \<in> set rows" and cr: "coerce_row item = Inr row" by blast
  note f = coerce_row_fields [OF cr]
  from foldl_upsert_present [OF d row, of t] obtain r
    where "find (\<lambda>r. row_key r = row_key row) t' = Some r"
      and "open r = open row" "high r = high row" "low r = low row"
      "close r = close row" "volume r = volume row"
    unfolding t' by blast
  with f show ?thesis by (simp add: row_stored_def)
qed

lemma insert_rows_success:
  assumes "run_query tbs (InsertRows name data) = Inr (res, tbs')"
  shows "\<exists>t0 t'. insert_on_conflict t0 data = Inr t' \<and> tbs' name = Some t'"
proof (cases "tbs name")
  case None
  with assms show ?thesis by (simp add: run_query_def)
next
  case (Some t0)
  show ?thesis
  proof (cases "insert_on_conflict t0 data")
    case (Inl e)
    with Some assms show ?thesis by (simp add: run_query_def)
  next
    case (Inr t')
    with Some assms show ?thesis by (auto simp: run_query_def)
  qed
qed

lemma persistToPostgres_success:
  assumes ok: "persistToPostgres w data ex mt = (Inr v, w')" and ne: "data \<noteq> []"
  shows "\<exists>t. tables w' (getTableName ex mt) = Some t \<and> (\<forall>item \<in> set data. row_stored t item)"
proof -
  let ?q = "InsertRows (getTableName ex mt) data"
  obtain r w1 where r: "retry (query_unit ?q) (retry_default_attempts w) (retry_default_delay w) w = (r, w1)"
    by (cases "retry (query_unit ?q) (retry_default_attempts w) (retry_default_delay w) w")
  from ne have "persistToPostgres w data ex mt = rethrow_logged (r, w1)"
  proof (cases rule: persistToPostgres_cases [of data w ex mt])
    case thrown
    with ok show ?thesis by (simp add: rethrow_logged_def)
  next
    case query
    with r show ?thesis by simp
  qed
  with ok have rl: "rethrow_logged (r, w1) = (Inr v, w')" by simp
  have rv: "r = Inr v \<and> w1 = w'"
  proof (cases r)
    case (Inl e)
    with rl show ?thesis by (simp add: rethrow_logged_def)
  next
    case (Inr v1)
    with rl show ?thesis by (simp add: rethrow_logged_def)
  qed
  with r have "retry_attempts (query_unit ?q) (retry_default_attempts w) (retry_default_delay w)
        (Thrown ''retry: no attempt allowed'') w = (Inr v, w')"
    by (simp add: retry_def)
  from retry_attempts_success [OF this] obtain w0 where qu: "query_unit ?q w0 = (Inr v, w')" ..
  obtain x w2 where pq: "pool_query w0 ?q = (x, w2)" by (cases "pool_query w0 ?q")
  from qu pq obtain res where "pool_query w0 ?q = (Inr res, w')"
    by (cases x) (simp_all add: query_unit_def)
  from insert_rows_success [OF pool_query_success [OF this]]
  obtain t0 t' where ins: "insert_on_conflict t0 data = Inr t'"
    and t: "tables w' (getTableName ex mt) = Some t'" by blast
  from t insert_on_conflict_stores [OF ins] show ?thesis by blast
qed

lemma persist_batch_persisted:
  assumes r: "retry (\<lambda>w. persistToPostgres w (deduplicateOHLCVData (take bs (drop i data))) ex mt)
                mr d w = (Inr v, w')"
    and bs: "0 < bs" and i: "i < length data"
  shows "persist_batch w data ex mt mr d bs i = emit (Batch_persisted i) w'"
    and "\<exists>t. tables w' (getTableName ex mt) = Some t
           \<and> (\<forall>item \<in> set (deduplicateOHLCVData (take bs (drop i data))). row_stored t item)"
proof -
  let ?batch = "deduplicateOHLCVData (take bs (drop i data))"
  from r show "persist_batch w data ex mt mr d bs i = emit (Batch_persisted i) w'"
    by (simp add: persist_batch_def Let_def)
  from r obtain w0 where "persistToPostgres w0 ?batch ex mt = (Inr v, w')"
    unfolding retry_def by (blast dest: retry_attempts_success)
  from persistToPostgres_success [OF this batch_nonempty [OF bs i]]
  show "\<exists>t. tables w' (getTableName ex mt) = Some t \<and> (\<forall>item \<in> set ?batch. row_stored t item)" .
qed

lemma stored_keys:
  "tbs name = Some t \<Longrightarrow> \<forall>item \<in> set batch. row_stored t item \<Longrightarrow>
   \<forall>item \<in> set batch. row_key item \<in> keys_of tbs name"
  by (auto simp: keys_of_def dest: row_stored_key)

lemma take_batch:
  "i + bs \<le> n \<Longrightarrow> take bs (drop i (take n data)) = take bs (drop i data)"
  by (simp add: drop_take min_def)

lemma persist_batch_prefix:
  "i + bs \<le> n \<Longrightarrow>
   persist_batch w (take n data) ex mt mr d bs i = persist_batch w data ex mt mr d bs i"
  by (simp add: persist_batch_def take_batch)

lemma persist_batches_loop_reaches:
  assumes bs: "0 < bs"
  shows "j * bs \<le> length data \<Longrightarrow>
    persist_batches_loop w data ex mt mr d bs 0 =
      persist_batches_loop (persist_batches_loop w (take (j * bs) data) ex mt mr d bs 0)
        data ex mt mr d bs (j * bs)"
proof (induction j arbitrary: data)
  case 0
  show ?case by (simp add: persist_batches_loop_done)
next
  case (Suc j)
  let ?n = "Suc j * bs"
  let ?pre = "take ?n data"
  let ?W = "persist_batches_loop w (take (j * bs) data) ex mt mr d bs 0"
  from Suc.prems have lt: "j * bs < length data" using bs by simp
  from Suc.prems have le: "j * bs \<le> length data" by simp
  have len: "length ?pre = ?n" using Suc.prems by simp
  have tk: "take (j * bs) ?pre = take (j * bs) data" by (simp add: min_def)
  have "persist_batches_loop w ?pre ex mt mr d bs 0 =
        persist_batches_loop ?W ?pre ex mt mr d bs (j * bs)"
    using Suc.IH [of ?pre] len tk by simp
  also have "\<dots> = persist_batches_loop (persist_batch ?W ?pre ex mt mr d bs (j * bs))
                      ?pre ex mt mr d bs (j * bs + bs)"
  proof (rule persist_batches_loop_step [OF bs])
    show "j * bs < length ?pre" using bs Suc.prems by simp
  qed
  also have "\<dots> = persist_batch ?W ?pre ex mt mr d bs (j * bs)"
    by (rule persist_batches_loop_done) (simp add: len)
  also have "\<dots> = persist_batch ?W data ex mt mr d bs (j * bs)"
    by (rule persist_batch_prefix) simp
  finally have pre: "persist_batches_loop w ?pre ex mt mr d bs 0 =
        persist_batch ?W data ex mt mr d bs (j * bs)" .
  have "persist_batches_loop w data ex mt mr d bs 0 =
        persist_batches_loop ?W data ex mt mr d bs (j * bs)"
    by (rule Suc.IH [OF le])
  also have "\<dots> = persist_batches_loop (persist_batch ?W data ex mt mr d bs (j * bs))
                      data ex mt mr d bs (j * bs + bs)"
    by (rule persist_batches_loop_step [OF bs lt])
  finally have main: "persist_batches_loop w data ex mt mr d bs 0 =
        persist_batches_loop (persist_batch ?W data ex mt mr d bs (j * bs))
          data ex mt mr d bs (j * bs + bs)" .
  have idx: "Suc j * bs = j * bs + bs" by simp
  show ?case by (simp only: idx pre [unfolded idx] main)
qed

lemma run_query_insert_row_at:
  assumes q: "run_query tbs (InsertRows n data) = Inr (res, tbs')"
    and k: "k \<notin> row_key ` set data"
  shows "row_at tbs' name k = row_at tbs name k"
proof (cases "tbs n")
  case None
  with q show ?thesis by (simp add: run_query_def)
next
  case (Some t)
  show ?thesis
  proof (cases "insert_on_conflict t data")
    case (Inl e)
    with Some q show ?thesis by (simp add: run_query_def)
  next
    case (Inr t')
    from insert_on_conflict_accepts [OF Inr] obtain rows
      where co: "coerce_rows data = Inr rows" and t': "t' = foldl upsert_row t rows" by blast
    from coerce_rows_keys [OF co] have "row_key ` set rows = row_key ` set data"
      by (metis set_map)
    with k have "k \<notin> row_key ` set rows" by simp
    from foldl_upsert_others [OF this, of t] t'
    have f: "find (\<lambda>r. row_key r = k) t' = find (\<lambda>r. row_key r = k) t" by simp
    from Some Inr q have tbs': "tbs' = tbs(n \<mapsto> t')" by (simp add: run_query_def)
    show ?thesis
    proof (cases "name = n")
      case True
      with f Some tbs' show ?thesis by (simp add: row_at_def)
    next
      case False
      with tbs' show ?thesis by (simp add: row_at_def)
    qed
  qed
qed

lemma query_unit_insert_row_at:
  assumes k: "k \<notin> row_key ` set data"
  shows "row_at (tables (snd (query_unit (InsertRows n data) w))) name k = row_at (tables w) name k"
proof -
  let ?q = "InsertRows n data"
  obtain x w' where pq: "pool_query w ?q = (x, w')" by (cases "pool_query w ?q")
  show ?thesis
  proof (cases x)
    case (Inl e)
    with pq have "query_unit ?q w = (Inl e, w')" by (simp add: query_unit_def)
    from query_unit_failure [OF this] this show ?thesis by simp
  next
    case (Inr res)
    with pq have qu: "query_unit ?q w = (Inr (), w')" by (simp add: query_unit_def)
    from pq Inr have "run_query (tables w) ?q = Inr (res, tables w')"
      by (simp add: pool_query_success)
    from run_query_insert_row_at [OF this k] qu show ?thesis by simp
  qed
qed

lemma retry_attempts_row_at:
  assumes fn: "\<And>w. row_at (tables (snd (fn w))) name k = row_at (tables w) name k"
  shows "row_at (tables (snd (retry_attempts fn n d e0 w))) name k = row_at (tables w) name k"
proof (induction n arbitrary: w e0)
  case 0
  show ?case by simp
next
  case (Suc n)
  obtain r w1 where f: "fn w = (r, w1)" by (cases "fn w")
  from fn [of w] f have t1: "row_at (tables w1) name k = row_at (tables w) name k" by simp
  show ?case
  proof (cases r)
    case (Inr v)
    with f t1 show ?thesis by simp
  next
    case (Inl e)
    let ?w2 = "if n = 0 then w1 else sleep d w1"
    have t2: "tables ?w2 = tables w1" by (simp add: sleep_def emit_def)
    from Suc.IH [of e ?w2] t1 t2 f Inl show ?thesis by simp
  qed
qed

lemma persistToPostgres_row_at:
  assumes k: "k \<notin> row_key ` set data"
  shows "row_at (tables (snd (persistToPostgres w data ex mt))) name k = row_at (tables w) name k"
proof (cases "data = []")
  case True
  then show ?thesis by (simp add: persistToPostgres_def)
next
  case False
  let ?r = "retry (query_unit (InsertRows (getTableName ex mt) data))
              (retry_default_attempts w) (retry_default_delay w) w"
  have r: "row_at (tables (snd ?r)) name k = row_at (tables w) name k"
    unfolding retry_def
    by (rule retry_attempts_row_at) (rule query_unit_insert_row_at [OF k])
  have "tables (snd (rethrow_logged ?r)) = tables (snd ?r)"
    by (cases ?r) (auto simp: rethrow_logged_def split: sum.splits)
  with r have q: "row_at (tables (snd (rethrow_logged ?r))) name k = row_at (tables w) name k"
    by simp
  from False show ?thesis
  proof (cases rule: persistToPostgres_cases [of data w ex mt])
    case thrown
    then show ?thesis by (simp add: rethrow_logged_def)
  next
    case query
    with q show ?thesis by simp
  qed
qed

lemma deduplicate_loop_subset: "set (deduplicate_loop seen xs) \<subseteq> set xs"
  by (induction xs arbitrary: seen) (auto simp: Let_def)

lemma deduplicate_subset: "set (deduplicateOHLCVData xs) \<subseteq> set xs"
  by (simp add: deduplicateOHLCVData_def deduplicate_loop_subset)

lemma persist_batch_row_at:
  assumes k: "k \<notin> row_key ` set (drop i data)"
  shows "row_at (tables (persist_batch w data ex mt mr d bs i)) name k = row_at (tables w) name k"
proof -
  let ?batch = "deduplicateOHLCVData (take bs (drop i data))"
  let ?fn = "\<lambda>w. persistToPostgres w ?batch ex mt"
  have "set ?batch \<subseteq> set (drop i data)"
    using deduplicate_subset [of "take bs (drop i data)"] set_take_subset [of bs "drop i data"]
    by blast
  with k have kb: "k \<notin> row_key ` set ?batch" by blast
  have r: "row_at (tables (snd (retry ?fn mr d w))) name k = row_at (tables w) name k"
    unfolding retry_def
    by (rule retry_attempts_row_at) (rule persistToPostgres_row_at [OF kb])
  obtain x w' where x: "retry ?fn mr d w = (x, w')" by (cases "retry ?fn mr d w")
  with r show ?thesis by (cases x) (simp_all add: persist_batch_def Let_def)
qed

lemma persist_batches_loop_row_at:
  "k \<notin> row_key ` set (drop i data) \<Longrightarrow>
   row_at (tables (persist_batches_loop w data ex mt mr d bs i)) name k = row_at (tables w) name k"
proof (induction w data ex mt mr d bs i rule: persist_batches_loop.induct)
  case (1 w data ex mt mr d bs i)
  show ?case
  proof (cases "bs = 0 \<or> length data \<le> i")
    case True
    then show ?thesis by (subst persist_batches_loop.simps) simp
  next
    case False
    have "set (drop (i + bs) data) \<subseteq> set (drop i data)"
      by (metis add.commute drop_drop set_drop_subset)
    with "1.prems" have k': "k \<notin> row_key ` set (drop (i + bs) data)" by blast
    from "1.IH" [OF False k'] persist_batch_row_at [OF "1.prems", of w ex mt mr d bs name] False
    show ?thesis by (subst persist_batches_loop.simps) simp
  qed
qed

lemma row_stored_row_at:
  "row_at tbs name (row_key item) = row_at tbs' name (row_key item) \<Longrightarrow>
   tbs name = Some t \<Longrightarrow> row_stored t item \<Longrightarrow>
   \<exists>t'. tbs' name = Some t' \<and> row_stored t' item"
  by (cases "tbs' name") (auto simp: row_at_def row_stored_def split: option.splits)

lemma batch_keys_fresh:
  assumes d: "distinct (map row_key data)"
    and item: "item \<in> set (deduplicateOHLCVData (take bs (drop i data)))"
  shows "row_key item \<notin> row_key ` set (drop (i + bs) data)"
proof -
  have "data = take (i + bs) data @ drop (i + bs) data" by simp
  with d have "distinct (map row_key (take (i + bs) data) @ map row_key (drop (i + bs) data))"
    by (metis map_append)
  then have dis: "row_key ` set (take (i + bs) data) \<inter> row_key ` set (drop (i + bs) data) = {}"
    by (simp add: image_set [symmetric] del: append_take_drop_id)
  have "take bs (drop i data) = drop i (take (i + bs) data)"
    by (simp add: drop_take)
  then have "set (take bs (drop i data)) \<subseteq> set (take (i + bs) data)"
    by (simp add: set_drop_subset)
  with item deduplicate_subset [of "take bs (drop i data)"]
  have "item \<in> set (take (i + bs) data)" by blast
  with dis show ?thesis by blast
qed

lemma persist_batch_event:
  assumes bs: "0 < bs" and lt: "j * bs < length data"
    and pb: "persist_batch (persist_batches_loop w1 (take (j * bs) data) ex mt mr d bs 0)
               data ex mt mr d bs (j * bs) = emit ev w3"
    and g: "grows (persist_batches_loop w1 (take (j * bs) data) ex mt mr d bs 0) w3"
  shows "persist_batches_loop w1 data ex mt mr d bs 0 =
           persist_batches_loop (emit ev w3) data ex mt mr d bs (j * bs + bs)"
    and "ev \<in> set (new_events w1 (persist_batches_loop w1 data ex mt mr d bs 0))"
    and "grows w3 (persist_batches_loop w1 data ex mt mr d bs 0)"
proof -
  let ?W = "persist_batches_loop w1 (take (j * bs) data) ex mt mr d bs 0"
  let ?w' = "persist_batches_loop w1 data ex mt mr d bs 0"
  from lt have le: "j * bs \<le> length data" by simp
  have "?w' = persist_batches_loop ?W data ex mt mr d bs (j * bs)"
    by (rule persist_batches_loop_reaches [OF bs le])
  also have "\<dots> = persist_batches_loop (persist_batch ?W data ex mt mr d bs (j * bs))
                      data ex mt mr d bs (j * bs + bs)"
    by (rule persist_batches_loop_step [OF bs lt])
  finally show eq: "?w' = persist_batches_loop (emit ev w3) data ex mt mr d bs (j * bs + bs)"
    by (simp only: pb)
  have g1: "grows w1 ?W" by (rule grows_persist_batches_loop)
  have g2: "grows w1 w3" by (rule grows_trans [OF g1 g])
  have g3: "grows w3 (emit ev w3)" by simp
  have g4: "grows (emit ev w3) ?w'" unfolding eq by (rule grows_persist_batches_loop)
  show "grows w3 ?w'" by (rule grows_trans [OF g3 g4])
  have "new_events w1 ?w' = new_events w1 w3 @ new_events w3 ?w'"
    by (rule new_events_append [OF g2 grows_trans [OF g3 g4]])
  also have "new_events w3 ?w' = new_events w3 (emit ev w3) @ new_events (emit ev w3) ?w'"
    by (rule new_events_append [OF g3 g4])
  finally show "ev \<in> set (new_events w1 ?w')" by (simp add: new_events_emit)
qed

text \<open>
  C7. Once the table exists and the batch size is positive, the writer returns normally
  with the world the batch loop leaves, whatever happens to the batches. The loop ends
  past the last row; before that, one step of it runs the bounded retry on the batch at
  its index and goes on with the next index in either case: when the retry gives up, the
  tables are as they were and the failure is logged; when it succeeds, the success is
  logged and the rows of the batch are in the table. So every batch \<open>j\<close> is attempted, in
  the world the batches before it have left, whatever happened to those: a failure of
  batch \<open>j\<close> is in the log of the run, a success is in the log, the keys of its rows are in
  the final table, and when the data has no key twice its rows are in the final table with
  their prices and volume.
\<close>

theorem batch_failure_isolated:
  fixes w :: "'n world"
  assumes data: "data \<noteq> []"
    and ens: "ensureTableExists w ex mt = (Inr u, w1)"
    and size: "0 < PERSISTENCE_BATCH_SIZE w1"
    and bs: "bs = nat (PERSISTENCE_BATCH_SIZE w1)"
    and w': "w' = persist_batches_loop w1 data ex mt mr d bs 0"
  shows "persistOHLCVInBatches w data ex mt mr d = Some (Inr (), w')
     \<and> (\<forall>(w2 :: 'n world) i. length data \<le> i \<longrightarrow>
           persist_batches_loop w2 data ex mt mr d bs i = w2)
     \<and> (\<forall>(w2 :: 'n world) i e w3. i < length data
           \<and> retry (\<lambda>w. persistToPostgres w (deduplicateOHLCVData (take bs (drop i data))) ex mt)
                 mr d w2 = (Inl e, w3) \<longrightarrow>
           tables w3 = tables w2
           \<and> persist_batches_loop w2 data ex mt mr d bs i =
               persist_batches_loop (emit (Batch_failed i e) w3) data ex mt mr d bs (i + bs))
     \<and> (\<forall>(w2 :: 'n world) i v w3. i < length data
           \<and> retry (\<lambda>w. persistToPostgres w (deduplicateOHLCVData (take bs (drop i data))) ex mt)
                 mr d w2 = (Inr v, w3) \<longrightarrow>
           persist_batches_loop w2 data ex mt mr d bs i =
               persist_batches_loop (emit (Batch_persisted i) w3) data ex mt mr d bs (i + bs)
           \<and> (\<exists>t. tables w3 (getTableName ex mt) = Some t
                \<and> (\<forall>item \<in> set (deduplicateOHLCVData (take bs (drop i data))).
                      row_stored t item)))
     \<and> (\<forall>j. j * bs < length data \<longrightarrow>
           w' = persist_batches_loop (persist_batches_loop w1 (take (j * bs) data) ex mt mr d bs 0)
                  data ex mt mr d bs (j * bs)
           \<and> (\<forall>e w3.
                 retry (\<lambda>w. persistToPostgres w
                            (deduplicateOHLCVData (take bs (drop (j * bs) data))) ex mt) mr d
                   (persist_batches_loop w1 (take (j * bs) data) ex mt mr d bs 0) = (Inl e, w3) \<longrightarrow>
                 Batch_failed (j * bs) e \<in> set (new_events w1 w'))
           \<and> (\<forall>v w3.
                 retry (\<lambda>w. persistToPostgres w
                            (deduplicateOHLCVData (take bs (drop (j * bs) data))) ex mt) mr d
                   (persist_batches_loop w1 (take (j * bs) data) ex mt mr d bs 0) = (Inr v, w3) \<longrightarrow>
                 Batch_persisted (j * bs) \<in> set (new_events w1 w')
                 \<and> (\<forall>item \<in> set (deduplicateOHLCVData (take bs (drop (j * bs) data))).
                       row_key item \<in> keys_of (tables w') (getTableName ex mt))
                 \<and> (distinct (map row_key data) \<longrightarrow>
                      (\<exists>t. tables w' (getTableName ex mt) = Some t
                         \<and> (\<forall>item \<in> set (deduplicateOHLCVData (take bs (drop (j * bs) data))).
                               row_stored t item)))))"
proof -
  have pos: "0 < bs" using size bs by simp
  have res: "persistOHLCVInBatches w data ex mt mr d = Some (Inr (), w')"
    using data ens size bs w' by (simp add: persistOHLCVInBatches_def)
  have stop: "\<forall>(w2 :: 'n world) i. length data \<le> i \<longrightarrow>
           persist_batches_loop w2 data ex mt mr d bs i = w2"
    by (simp add: persist_batches_loop_done)
  have skip: "\<forall>(w2 :: 'n world) i e w3. i < length data
           \<and> retry (\<lambda>w. persistToPostgres w (deduplicateOHLCVData (take bs (drop i data))) ex mt)
                 mr d w2 = (Inl e, w3) \<longrightarrow>
           tables w3 = tables w2
           \<and> persist_batches_loop w2 data ex mt mr d bs i =
               persist_batches_loop (emit (Batch_failed i e) w3) data ex mt mr d bs (i + bs)"
  proof (intro allI impI, elim conjE)
    fix w2 :: "'n world" and i e w3
    assume i: "i < length data"
      and r: "retry (\<lambda>w. persistToPostgres w (deduplicateOHLCVData (take bs (drop i data))) ex mt)
                 mr d w2 = (Inl e, w3)"
    from persist_batch_failed [OF r] persist_batches_loop_step [OF pos i, of w2 ex mt mr d]
    show "tables w3 = tables w2
           \<and> persist_batches_loop w2 data ex mt mr d bs i =
               persist_batches_loop (emit (Batch_failed i e) w3) data ex mt mr d bs (i + bs)"
      by simp
  qed
  have store: "\<forall>(w2 :: 'n world) i v w3. i < length data
           \<and> retry (\<lambda>w. persistToPostgres w (deduplicateOHLCVData (take bs (drop i data))) ex mt)
                 mr d w2 = (Inr v, w3) \<longrightarrow>
           persist_batches_loop w2 data ex mt mr d bs i =
               persist_batches_loop (emit (Batch_persisted i) w3) data ex mt mr d bs (i + bs)
           \<and> (\<exists>t. tables w3 (getTableName ex mt) = Some t
                \<and> (\<forall>item \<in> set (deduplicateOHLCVData (take bs (drop i data))).
                      row_stored t item))"
  proof (intro allI impI, elim conjE)
    fix w2 :: "'n world" and i v w3
    assume i: "i < length data"
      and r: "retry (\<lambda>w. persistToPostgres w (deduplicateOHLCVData (take bs (drop i data))) ex mt)
                 mr d w2 = (Inr v, w3)"
    from persist_batch_persisted [OF r pos i]
      persist_batches_loop_step [OF pos i, of w2 ex mt mr d]
    show "persist_batches_loop w2 data ex mt mr d bs i =
               persist_batches_loop (emit (Batch_persisted i) w3) data ex mt mr d bs (i + bs)
           \<and> (\<exists>t. tables w3 (getTableName ex mt) = Some t
                \<and> (\<forall>item \<in> set (deduplicateOHLCVData (take bs (drop i data))).
                      row_stored t item))"
      by simp
  qed
  have each: "\<forall>j. j * bs < length data \<longrightarrow>
           w' = persist_batches_loop (persist_batches_loop w1 (take (j * bs) data) ex mt mr d bs 0)
                  data ex mt mr d bs (j * bs)
           \<and> (\<forall>e w3.
                 retry (\<lambda>w. persistToPostgres w
                            (deduplicateOHLCVData (take bs (drop (j * bs) data))) ex mt) mr d
                   (persist_batches_loop w1 (take (j * bs) data) ex mt mr d bs 0) = (Inl e, w3) \<longrightarrow>
                 Batch_failed (j * bs) e \<in> set (new_events w1 w'))
           \<and> (\<forall>v w3.
                 retry (\<lambda>w. persistToPostgres w
                            (deduplicateOHLCVData (take bs (drop (j * bs) data))) ex mt) mr d
                   (persist_batches_loop w1 (take (j * bs) data) ex mt mr d bs 0) = (Inr v, w3) \<longrightarrow>
                 Batch_persisted (j * bs) \<in> set (new_events w1 w')
                 \<and> (\<forall>item \<in> set (deduplicateOHLCVData (take bs (drop (j * bs) data))).
                       row_key item \<in> keys_of (tables w') (getTableName ex mt))
                 \<and> (distinct (map row_key data) \<longrightarrow>
                      (\<exists>t. tables w' (getTableName ex mt) = Some t
                         \<and> (\<forall>item \<in> set (deduplicateOHLCVData (take bs (drop (j * bs) data))).
                               row_stored t item))))"
  proof (intro allI impI conjI)
    fix j assume lt: "j * bs < length data"
    let ?W = "persist_batches_loop w1 (take (j * bs) data) ex mt mr d bs 0"
    let ?batch = "deduplicateOHLCVData (take bs (drop (j * bs) data))"
    let ?name = "getTableName ex mt"
    from lt have le: "j * bs \<le> length data" by simp
    show "w' = persist_batches_loop ?W data ex mt mr d bs (j * bs)"
      unfolding w' by (rule persist_batches_loop_reaches [OF pos le])
    {
      fix e w3
      assume r: "retry (\<lambda>w. persistToPostgres w ?batch ex mt) mr d ?W = (Inl e, w3)"
      from persist_batch_failed [OF r]
      have pb: "persist_batch ?W data ex mt mr d bs (j * bs) = emit (Batch_failed (j * bs) e) w3"
        by simp
      from grows_retry_persist [of ?W ?batch ex mt mr d] r have g: "grows ?W w3" by simp
      from persist_batch_event(2) [OF pos lt pb g]
      show "Batch_failed (j * bs) e \<in> set (new_events w1 w')" unfolding w' .
    }
    {
      fix v w3
      assume r: "retry (\<lambda>w. persistToPostgres w ?batch ex mt) mr d ?W = (Inr v, w3)"
      from persist_batch_persisted [OF r pos lt]
      have pb: "persist_batch ?W data ex mt mr d bs (j * bs) = emit (Batch_persisted (j * bs)) w3"
        and st: "\<exists>t. tables w3 ?name = Some t \<and> (\<forall>item \<in> set ?batch. row_stored t item)"
        by simp_all
      from grows_retry_persist [of ?W ?batch ex mt mr d] r have g: "grows ?W w3" by simp
      note ev = persist_batch_event [OF pos lt pb g]
      from ev(2) show "Batch_persisted (j * bs) \<in> set (new_events w1 w')" unfolding w' .
      from st obtain t where t: "tables w3 ?name = Some t"
        and rows: "\<forall>item \<in> set ?batch. row_stored t item" by blast
      from ev(3) have sub: "keys_of (tables w3) ?name \<subseteq> keys_of (tables w') ?name"
        unfolding w' by (simp add: grows_def)
      from stored_keys [of "tables w3" ?name t ?batch, OF t rows] sub
      show "\<forall>item \<in> set ?batch. row_key item \<in> keys_of (tables w') ?name" by blast
      assume dist: "distinct (map row_key data)"
      have keep: "\<And>item. item \<in> set ?batch \<Longrightarrow>
          row_at (tables w3) ?name (row_key item) = row_at (tables w') ?name (row_key item)"
      proof -
        fix item assume "item \<in> set ?batch"
        from batch_keys_fresh [OF dist this]
        have "row_key item \<notin> row_key ` set (drop (j * bs + bs) data)" .
        from persist_batches_loop_row_at [OF this,
            of "emit (Batch_persisted (j * bs)) w3" ex mt mr d bs ?name]
        show "row_at (tables w3) ?name (row_key item) = row_at (tables w') ?name (row_key item)"
          unfolding w' ev(1) by simp
      qed
      show "\<exists>t. tables w' ?name = Some t \<and> (\<forall>item \<in> set ?batch. row_stored t item)"
      proof (cases "?batch")
        case Nil
        with batch_nonempty [OF pos lt, of ] show ?thesis by simp
      next
        case (Cons item0 rest)
        then have "item0 \<in> set ?batch" by simp
        from row_stored_row_at [of "tables w3" ?name item0 "tables w'" t, OF keep [OF this] t]
          rows this
        obtain t' where t': "tables w' ?name = Some t'" by blast
        have "\<forall>item \<in> set ?batch. row_stored t' item"
        proof
          fix item assume m: "item \<in> set ?batch"
          from row_stored_row_at [of "tables w3" ?name item "tables w'" t, OF keep [OF m] t]
            rows m t'
          show "row_stored t' item" by auto
        qed
        with t' show ?thesis by blast
      qed
    }
  qed
  from res stop skip store each show ?thesis by (intro conjI)
qed

lemma flaky_run:
  "map_option (\<lambda>(r, w'). (r, tables w' ''binance_spot_ohlcv'', batch_events (trace w'),
                              queries w'))
     (persistOHLCVInBatches flaky_db_world five_items ''binance'' ''spot'' 3 1000) =
   Some (Inr (), Some [minute_row 0, minute_row 1, minute_row 4],
         [Batch_persisted 0, Batch_failed 2 (Thrown ''Connection terminated unexpectedly''),
          Batch_persisted 4], 12)"
  by code_simp

lemma overflow_run:
  "map_option (\<lambda>(r, w'). (r, tables w' ''binance_spot_ohlcv'', batch_events (trace w')))
     (persistOHLCVInBatches single_row_world overflow_items ''binance'' ''spot'' 3 1000) =
   Some (Inr (), Some [minute_row 0, minute_row 2],
         [Batch_persisted 0, Batch_failed 1 (Thrown ''numeric field overflow''),
          Batch_persisted 2])"
  by code_simp

theorem batch_failure_isolated_witness:
  "five_items \<noteq> []
   \<and> fst (ensureTableExists flaky_db_world ''binance'' ''spot'') = Inr ()
   \<and> 0 < PERSISTENCE_BATCH_SIZE (snd (ensureTableExists flaky_db_world ''binance'' ''spot''))
   \<and> (\<exists>w'. persistOHLCVInBatches flaky_db_world five_items ''binance'' ''spot'' 3 1000
              = Some (Inr (), w')
         \<and> tables w' ''binance_spot_ohlcv'' = Some [minute_row 0, minute_row 1, minute_row 4]
         \<and> batch_events (trace w') =
             [Batch_persisted 0, Batch_failed 2 (Thrown ''Connection terminated unexpectedly''),
              Batch_persisted 4]
         \<and> queries w' = 12)
   \<and> map_option (\<lambda>(r, w'). (r, tables w' ''binance_spot_ohlcv'', batch_events (trace w')))
       (persistOHLCVInBatches single_row_world overflow_items ''binance'' ''spot'' 3 1000) =
     Some (Inr (), Some [minute_row 0, minute_row 2],
           [Batch_persisted 0, Batch_failed 1 (Thrown ''numeric field overflow''),
            Batch_persisted 2])"
proof -
  let ?e = "ensureTableExists flaky_db_world ''binance'' ''spot''"
  have d: "five_items \<noteq> []" by (simp add: five_items_def)
  have e1: "fst ?e = Inr ()" by code_simp
  have e2: "0 < PERSISTENCE_BATCH_SIZE (snd ?e)" by code_simp
  from e1 have ens: "?e = (Inr (), snd ?e)" by (simp add: prod_eq_iff)
  from batch_failure_isolated [OF d ens e2 refl refl, of 3 1000]
  obtain w' where w': "persistOHLCVInBatches flaky_db_world five_items ''binance'' ''spot'' 3 1000
      = Some (Inr (), w')" by blast
  with flaky_run have "tables w' ''binance_spot_ohlcv'' =
        Some [minute_row 0, minute_row 1, minute_row 4]
      \<and> batch_events (trace w') =
        [Batch_persisted 0, Batch_failed 2 (Thrown ''Connection terminated unexpectedly''),
         Batch_persisted 4]
      \<and> queries w' = 12"
    by simp
  with d e1 e2 w' overflow_run show ?thesis by blast
qed

section \<open>Properties of the upsert\<close>






section \<open>Properties of the symbol loop\<close>

lemma symbols_loop_failure:
  "symbols_loop ts ex markets ls lp w pre = Some (Inr u, w1) \<Longrightarrow>
   sync_symbol ts w1 ex markets ls lp s = Some (Inl e, w2) \<Longrightarrow>
   symbols_loop ts ex markets ls lp w (pre @ s # rest) = Some (Inl e, w2)"
proof (induction pre arbitrary: w)
  case Nil
  then show ?case by simp
next
  case (Cons p pre)
  from Cons.prems(1) obtain x w' where p: "sync_symbol ts w ex markets ls lp p = Some (x, w')"
    by (cases "sync_symbol ts w ex markets ls lp p") auto
  show ?case
  proof (cases x)
    case (Inl err)
    with p Cons.prems(1) show ?thesis by simp
  next
    case (Inr v)
    with p Cons.prems(1) have "symbols_loop ts ex markets ls lp w' pre = Some (Inr u, w1)" by simp
    from Cons.IH [OF this Cons.prems(2)] p Inr show ?thesis by simp
  qed
qed

lemma sync_symbol_fetch_failure:
  assumes ty: "Option.bind (map_of markets s) mk_type = Some mtype" and ne: "mtype \<noteq> []"
    and start: "resume_from w (if mtype = ''spot'' then ls s else lp s) = (fromTime, w1)"
    and f: "fetchOHLCVData w1 s ''1m'' fromTime None = Some (Inl e, w2)"
  shows "sync_symbol ts w ex markets ls lp s = Some (Inl e, w2)"
  using ty ne start f by (simp add: sync_symbol_def Let_def)

lemma sync_exchange_body_loop:
  assumes markets: "load_markets w ex = Inr markets"
    and syms: "symbols_of
                 ((case marketsFilter opts of
                     None \<Rightarrow> defaultMarketsFilter (MARKET_TYPES w) | Some f \<Rightarrow> f)
                    ((case quoteFilter opts of None \<Rightarrow> defaultQuoteFilter | Some f \<Rightarrow> f)
                       (map snd markets))) = symbols"
    and spot: "getLatestTimesForAllSymbols w symbols ex ''swap'' = (ls, wa)"
    and perp: "getLatestTimesForAllSymbols wa symbols ex ''spot'' = (lp, wb)"
  shows "sync_exchange_body ts w ex opts = symbols_loop ts ex markets ls lp wb symbols"
  using markets syms spot perp by (simp add: sync_exchange_body_def Let_def)

text \<open>
  C1 (as amended). One sync of an exchange: the markets are loaded, the symbols selected,
  the latest stored times looked up, and the symbols before \<open>s\<close> processed without an
  exception. If the fetch for \<open>s\<close> then fails with an error \<open>e\<close>, whichever it is, the
  symbol loop is left at once: the sync of the exchange ends in the world the failed
  fetch has left, with only the error logged and the exchange closed after it, and
  returns normally. No symbol after \<open>s\<close> is processed.
\<close>

theorem symbol_failure_ends_exchange_sync:
  assumes markets: "load_markets w ex = Inr markets"
    and syms: "symbols_of
                 ((case marketsFilter opts of
                     None \<Rightarrow> defaultMarketsFilter (MARKET_TYPES w) | Some f \<Rightarrow> f)
                    ((case quoteFilter opts of None \<Rightarrow> defaultQuoteFilter | Some f \<Rightarrow> f)
                       (map snd markets))) = pre @ s # rest"
    and spot: "getLatestTimesForAllSymbols w (pre @ s # rest) ex ''swap'' = (ls, wa)"
    and perp: "getLatestTimesForAllSymbols wa (pre @ s # rest) ex ''spot'' = (lp, wb)"
    and before: "symbols_loop ts ex markets ls lp wb pre = Some (Inr u, w1)"
    and ty: "Option.bind (map_of markets s) mk_type = Some mtype"
    and ne: "mtype \<noteq> []"
    and start: "resume_from w1 (if mtype = ''spot'' then ls s else lp s) = (fromTime, w1')"
    and fail: "fetchOHLCVData w1' s ''1m'' fromTime None = Some (Inl e, w2)"
  shows "fetchExchangeOHLCV ts w ex opts = Some (emit Closed (emit (Error_logged e) w2))
     \<and> sync_exchange_body ts w ex opts = Some (Inl e, w2)
     \<and> symbols_loop ts ex markets ls lp wb (pre @ s # rest) = Some (Inl e, w2)
     \<and> sync_symbol ts w1 ex markets ls lp s = Some (Inl e, w2)"
proof -
  have one: "sync_symbol ts w1 ex markets ls lp s = Some (Inl e, w2)"
    by (rule sync_symbol_fetch_failure [where ls = ls and lp = lp and s = s, OF ty ne start fail])
  have loop: "symbols_loop ts ex markets ls lp wb (pre @ s # rest) = Some (Inl e, w2)"
    by (rule symbols_loop_failure [OF before one])
  have body: "sync_exchange_body ts w ex opts = Some (Inl e, w2)"
    unfolding sync_exchange_body_loop [OF markets syms spot perp] by (rule loop)
  have "fetchExchangeOHLCV ts w ex opts = Some (emit Closed (emit (Error_logged e) w2))"
    by (simp add: fetchExchangeOHLCV_def body)
  with one loop body show ?thesis by simp
qed

theorem symbol_failure_ends_exchange_sync_witness:
  "load_markets two_symbol_world ''binance'' = Inr two_markets
   \<and> symbols_of (defaultMarketsFilter (MARKET_TYPES two_symbol_world)
                   (defaultQuoteFilter (map snd two_markets)))
       = [] @ ''BTC/USDT:USDT'' # [''ETH/USDT:USDT'']
   \<and> fetchOHLCVData
       (two_symbol_world\<lparr>reads := 1, queries := 2,
          trace := [Query (SelectLatest ''binance_swap_ohlcv'' [''BTC/USDT:USDT'', ''ETH/USDT:USDT'']),
                    Query (SelectLatest ''binance_spot_ohlcv'' [''BTC/USDT:USDT'', ''ETH/USDT:USDT''])]\<rparr>)
       ''BTC/USDT:USDT'' ''1m'' 1692224600000 None
     = Some (Inl NoDataAvailable,
         two_symbol_world\<lparr>calls := 1, reads := 1, queries := 2,
           trace := [Query (SelectLatest ''binance_swap_ohlcv'' [''BTC/USDT:USDT'', ''ETH/USDT:USDT'']),
                     Query (SelectLatest ''binance_spot_ohlcv'' [''BTC/USDT:USDT'', ''ETH/USDT:USDT'']),
                     Fetch \<lparr>market = ''BTC/USDT:USDT'', timeframe = ''1m'',
                            since = 1692224600000, limit = LIMIT\<rparr>,
                     Error_logged NoDataAvailable]\<rparr>)
   \<and> fetchExchangeOHLCV (\<lambda>n. ''1'') two_symbol_world ''binance'' default_options
     = Some (two_symbol_world\<lparr>calls := 1, reads := 1, queries := 2,
           trace := [Query (SelectLatest ''binance_swap_ohlcv'' [''BTC/USDT:USDT'', ''ETH/USDT:USDT'']),
                     Query (SelectLatest ''binance_spot_ohlcv'' [''BTC/USDT:USDT'', ''ETH/USDT:USDT'']),
                     Fetch \<lparr>market = ''BTC/USDT:USDT'', timeframe = ''1m'',
                            since = 1692224600000, limit = LIMIT\<rparr>,
                     Error_logged NoDataAvailable, Error_logged NoDataAvailable, Closed]\<rparr>)"
proof -
  let ?w = two_symbol_world
  let ?syms = "[''BTC/USDT:USDT'', ''ETH/USDT:USDT'']"
  let ?Qa = "Query (SelectLatest ''binance_swap_ohlcv'' ?syms)"
  let ?Qb = "Query (SelectLatest ''binance_spot_ohlcv'' ?syms)"
  let ?F = "Fetch \<lparr>market = ''BTC/USDT:USDT'', timeframe = ''1m'',
                   since = 1692224600000, limit = LIMIT\<rparr>"
  let ?wa = "?w\<lparr>queries := 1, trace := [?Qa]\<rparr>"
  let ?wb = "?w\<lparr>queries := 2, trace := [?Qa, ?Qb]\<rparr>"
  let ?w1 = "?w\<lparr>reads := 1, queries := 2, trace := [?Qa, ?Qb]\<rparr>"
  let ?w2 = "?w\<lparr>calls := 1, reads := 1, queries := 2,
                 trace := [?Qa, ?Qb, ?F, Error_logged NoDataAvailable]\<rparr>"
  have markets: "load_markets ?w ''binance'' = Inr two_markets"
    by (simp add: two_symbol_world_def)
  have syms: "symbols_of
       ((case marketsFilter default_options of
           None \<Rightarrow> defaultMarketsFilter (MARKET_TYPES ?w) | Some f \<Rightarrow> f)
          ((case quoteFilter default_options of None \<Rightarrow> defaultQuoteFilter | Some f \<Rightarrow> f)
             (map snd two_markets))) = [] @ ''BTC/USDT:USDT'' # [''ETH/USDT:USDT'']"
    by code_simp
  have spot: "getLatestTimesForAllSymbols ?w ([] @ ''BTC/USDT:USDT'' # [''ETH/USDT:USDT''])
                ''binance'' ''swap'' = (Map.empty, ?wa)"
    by (simp add: getLatestTimesForAllSymbols_def pool_query_def run_query_def getTableName_def
          two_symbol_world_def quiet_world_def emit_def Let_def)
  have perp: "getLatestTimesForAllSymbols ?wa ([] @ ''BTC/USDT:USDT'' # [''ETH/USDT:USDT''])
                ''binance'' ''spot'' = (Map.empty, ?wb)"
    by (simp add: getLatestTimesForAllSymbols_def pool_query_def run_query_def getTableName_def
          two_symbol_world_def quiet_world_def emit_def Let_def)
  have before: "symbols_loop (\<lambda>n. ''1'') ''binance'' two_markets Map.empty Map.empty ?wb []
                  = Some (Inr (), ?wb)"
    by simp
  have ty: "Option.bind (map_of two_markets ''BTC/USDT:USDT'') mk_type = Some ''swap''"
    by (simp add: two_markets_def swap_market_def)
  have ne: "''swap'' \<noteq> []" by simp
  have start: "resume_from ?wb (if ''swap'' = ''spot'' then Map.empty ''BTC/USDT:USDT''
                                else Map.empty ''BTC/USDT:USDT'') = (1692224600000, ?w1)"
    by (simp add: resume_from_def Date_now_def two_symbol_world_def quiet_world_def)
  have fail: "fetchOHLCVData ?w1 ''BTC/USDT:USDT'' ''1m'' 1692224600000 None
                = Some (Inl NoDataAvailable, ?w2)"
    by (simp add: fetchOHLCVData_def fetchOHLCV_def rethrow_logged_def emit_def
          two_symbol_world_def quiet_world_def)
  from symbol_failure_ends_exchange_sync
         [where ls = Map.empty and lp = Map.empty and s = "''BTC/USDT:USDT''"
            and pre = "[]" and rest = "[''ETH/USDT:USDT'']",
          OF markets syms spot perp before ty ne start fail, THEN conjunct1]
  have "fetchExchangeOHLCV (\<lambda>n. ''1'') ?w ''binance'' default_options
          = Some (emit Closed (emit (Error_logged NoDataAvailable) ?w2))" .
  then have run: "fetchExchangeOHLCV (\<lambda>n. ''1'') ?w ''binance'' default_options
          = Some (?w\<lparr>calls := 1, reads := 1, queries := 2,
                 trace := [?Qa, ?Qb, ?F, Error_logged NoDataAvailable,
                           Error_logged NoDataAvailable, Closed]\<rparr>)"
    by (simp add: emit_def)
  have syms': "symbols_of (defaultMarketsFilter (MARKET_TYPES ?w)
                   (defaultQuoteFilter (map snd two_markets)))
       = [] @ ''BTC/USDT:USDT'' # [''ETH/USDT:USDT'']"
    using syms by (simp add: default_options_def)
  from markets syms' fail run show ?thesis by (intro conjI)
qed

text \<open>
  The claim as first stated fails on two symbols: the exchange has no candles for the
  first and two candles for the second; the sync of the exchange fetches the first
  symbol only, logs the error and closes.
\<close>

theorem symbol_failure_isolation_counterexample:
  "symbols_of (defaultMarketsFilter (MARKET_TYPES two_symbol_world)
                 (defaultQuoteFilter (map snd two_markets)))
     = [''BTC/USDT:USDT'', ''ETH/USDT:USDT'']
   \<and> map_option (\<lambda>w. (map market (fetches (trace w)), tables w ''binance_swap_ohlcv''))
       (fetchExchangeOHLCV (\<lambda>n. ''1'') two_symbol_world ''binance'' default_options)
     = Some ([''BTC/USDT:USDT''], None)
   \<and> map_option (\<lambda>w. drop 3 (trace w))
       (fetchExchangeOHLCV (\<lambda>n. ''1'') two_symbol_world ''binance'' default_options)
     = Some [Error_logged NoDataAvailable, Error_logged NoDataAvailable, Closed]"
  by code_simp

section \<open>Properties of the resume point\<close>

text \<open>
  C2 (the code departs from the claim). A perpetual market whose latest persisted close
  time in its own partition, the swap table, is \<open>1700000000000\<close>: the sync looks the symbol
  up in the spot table, finds nothing, and starts from the clock minus the lookback
  window.
\<close>

theorem resume_reads_other_partition:
  "select_latest [persisted_row] [''BTC/USDT:USDT''] = [(''BTC/USDT:USDT'', 1700000000000)]
   \<and> tables resume_world ''binance_swap_ohlcv'' = Some [persisted_row]
   \<and> clock resume_world 0 - HISTORICAL_DATA_TO_KEEP_MS resume_world = 1692224600000
   \<and> map_option (\<lambda>w. fetches (trace w))
       (fetchExchangeOHLCV (\<lambda>n. ''1'') resume_world ''binance'' default_options)
     = Some [\<lparr>market = ''BTC/USDT:USDT'', timeframe = ''1m'', since = 1692224600000,
               limit = 1000000\<rparr>]"
  by code_simp

end
